theory Spec2Isabelle
  imports Main "HOL-Library.Multiset"
begin

section \<open>Python values, containers and the random source\<close>

text \<open>
  The data loader of \<^verbatim>\<open>combined_model/neuraltalk2_pytorch/dataloader.py\<close>, embedded as
  state-passing functions. Every exception of the source is a value of \<open>error\<close>; a
  function that can raise returns \<open>error + result\<close> with \<open>Inl\<close> carrying the
  exception.
\<close>

datatype error = AssertionError | IndexError | KeyError | ValueError | StopIteration

text \<open>\<^verbatim>\<open>xs[i]\<close> for an index known to be non-negative (a cursor or an image index).\<close>

definition nth_res :: "'a list \<Rightarrow> nat \<Rightarrow> error + 'a" where
  "nth_res xs i = (if i < length xs then Inr (xs ! i) else Inl IndexError)"

text \<open>
  \<^verbatim>\<open>xs[i]\<close> for a Python integer: a negative index counts from the end. The rows of
  the label table are read by these rules as well. A dictionary is a map, and looking up
  a key that is not there is \<^verbatim>\<open>KeyError\<close>.
\<close>

definition py_index :: "'a list \<Rightarrow> int \<Rightarrow> error + 'a" where
  "py_index xs i =
     (if 0 \<le> i \<and> i < int (length xs) then Inr (xs ! nat i)
      else if i < 0 \<and> - i \<le> int (length xs) then Inr (xs ! nat (int (length xs) + i))
      else Inl IndexError)"

text \<open>A slice bound is clipped into \<open>0..n\<close>, a negative one after adding \<open>n\<close>.\<close>

definition slice_bound :: "nat \<Rightarrow> int \<Rightarrow> nat" where
  "slice_bound n i = (if i < 0 then nat (int n + i) else min n (nat i))"

text \<open>\<^verbatim>\<open>xs[a:b]\<close>.\<close>

definition py_slice :: "'a list \<Rightarrow> int \<Rightarrow> int \<Rightarrow> 'a list" where
  "py_slice xs a b =
     take (slice_bound (length xs) b - slice_bound (length xs) a)
          (drop (slice_bound (length xs) a) xs)"

text \<open>\<^verbatim>\<open>x or d\<close> for an optional integer argument: \<^verbatim>\<open>None\<close> and \<^verbatim>\<open>0\<close> are falsy.\<close>

definition py_or :: "int option \<Rightarrow> int \<Rightarrow> int" where
  "py_or x d = (case x of None \<Rightarrow> d | Some v \<Rightarrow> if v = 0 then d else v)"

text \<open>
  The process-wide generator of the \<^verbatim>\<open>random\<close> module is an infinite sequence of raw
  draws; taking one advances the sequence. \<^verbatim>\<open>random.randint(a, b)\<close> raises
  \<^verbatim>\<open>ValueError\<close> on an empty range and otherwise maps the next draw into \<open>a..b\<close>.
\<close>

type_synonym rng = "nat \<Rightarrow> nat"

definition rng_tail :: "rng \<Rightarrow> rng" where
  "rng_tail r = (\<lambda>n. r (Suc n))"

definition randint :: "int \<Rightarrow> int \<Rightarrow> rng \<Rightarrow> error + (int \<times> rng)" where
  "randint a b r =
     (if b < a then Inl ValueError
      else Inr (a + int (r 0 mod nat (b - a + 1)), rng_tail r))"

text \<open>
  \<^verbatim>\<open>random.shuffle(x)\<close>, the library's in-place exchange loop:
  \<^verbatim>\<open>for i in reversed(range(1, len(x))): j = randbelow(i + 1); x[i], x[j] = x[j], x[i]\<close>.
\<close>

fun shuffle_loop :: "nat \<Rightarrow> 'a list \<Rightarrow> rng \<Rightarrow> 'a list \<times> rng" where
  "shuffle_loop 0 xs r = (xs, r)"
| "shuffle_loop (Suc i) xs r =
     shuffle_loop i (xs[Suc i := xs ! (r 0 mod Suc (Suc i)), r 0 mod Suc (Suc i) := xs ! Suc i])
       (rng_tail r)"

definition shuffle :: "'a list \<Rightarrow> rng \<Rightarrow> 'a list \<times> rng" where
  "shuffle xs r = shuffle_loop (length xs - 1) xs r"

section \<open>The data model\<close>

text \<open>One record of \<^verbatim>\<open>info['images']\<close>.\<close>

record image =
  img_split :: string
  img_id :: int
  img_file_path :: string

text \<open>The options the loader reads (\<^verbatim>\<open>opt\<close>); paths are outside the model.\<close>

record opt =
  opt_batch_size :: int
  opt_seq_per_img :: int
  opt_train_only :: int

text \<open>
  The label file: the two-dimensional \<^verbatim>\<open>labels\<close> table with its second dimension
  \<^verbatim>\<open>shape[1]\<close>, and the per-image pointers, 1-based and inclusive.
\<close>

record h5_file =
  h5_labels :: "int list list"
  h5_labels_width :: nat
  h5_label_start_ix :: "int list"
  h5_label_end_ix :: "int list"

text \<open>
  A \<^verbatim>\<open>BlobFetcher\<close>. \<open>split_loader\<close> is \<open>None\<close> until the first \<^verbatim>\<open>reset\<close>
  (the attribute does not exist yet); afterwards it holds the image indices the loader
  iterator has still to deliver, in order.
\<close>

record blob_fetcher =
  bf_split :: string
  if_shuffle :: bool
  split_loader :: "nat list option"

text \<open>
  The \<^verbatim>\<open>DataLoader\<close> object with \<^verbatim>\<open>contrastive=False\<close>. Feature files are read by
  worker processes and are not part of the state; an example is identified by its image
  index.
\<close>

record DataLoader =
  allow_shuffle :: bool
  batch_size :: int
  seq_per_img :: int
  images :: "image list"
  labels_table :: "int list list"
  seq_length :: nat
  label_start_ix :: "int list"
  label_end_ix :: "int list"
  split_ix :: "string \<rightharpoonup> nat list"
  iterators :: "string \<rightharpoonup> nat"
  prefetch_process :: "string \<rightharpoonup> blob_fetcher"

section \<open>Construction\<close>

text \<open>\<^verbatim>\<open>BlobFetcher(split, dataloader, if_shuffle)\<close>.\<close>

definition BlobFetcher_init :: "string \<Rightarrow> bool \<Rightarrow> blob_fetcher" where
  "BlobFetcher_init split sh = \<lparr>bf_split = split, if_shuffle = sh, split_loader = None\<rparr>"

text \<open>\<^verbatim>\<open>d[k].append(v)\<close>; the constructor only appends under keys it has just created.\<close>

definition dict_append :: "(string \<rightharpoonup> nat list) \<Rightarrow> string \<Rightarrow> nat \<Rightarrow> (string \<rightharpoonup> nat list)" where
  "dict_append d k v = d(k \<mapsto> (case d k of None \<Rightarrow> [] | Some xs \<Rightarrow> xs) @ [v])"

text \<open>The body of the loop that separates the image indices by split (lines 92 to 101).\<close>

definition assign_split :: "int \<Rightarrow> image list \<Rightarrow> (string \<rightharpoonup> nat list) \<Rightarrow> nat \<Rightarrow> (string \<rightharpoonup> nat list)" where
  "assign_split train_only imgs d ix =
     (if img_split (imgs ! ix) = ''train'' then dict_append d ''train'' ix
      else if img_split (imgs ! ix) = ''val'' then dict_append d ''val'' ix
      else if img_split (imgs ! ix) = ''test'' then dict_append d ''test'' ix
      else if train_only = 0 then dict_append d ''train'' ix
      else d)"

definition empty_splits :: "string \<rightharpoonup> nat list" where
  "empty_splits = [''train'' \<mapsto> [], ''val'' \<mapsto> [], ''test'' \<mapsto> []]"

definition build_split_ix :: "int \<Rightarrow> image list \<Rightarrow> (string \<rightharpoonup> nat list)" where
  "build_split_ix train_only imgs =
     foldl (assign_split train_only imgs) empty_splits [0..<length imgs]"

text \<open>
  \<^verbatim>\<open>DataLoader.__init__\<close>, from the parsed metadata and label file. No statement of the
  constructor inspects the caption pointers, and none raises on parsed input.
\<close>

definition DataLoader_init :: "opt \<Rightarrow> bool \<Rightarrow> image list \<Rightarrow> h5_file \<Rightarrow> DataLoader" where
  "DataLoader_init op sh imgs h5 =
     \<lparr>allow_shuffle = sh,
      batch_size = opt_batch_size op,
      seq_per_img = opt_seq_per_img op,
      images = imgs,
      labels_table = h5_labels h5,
      seq_length = h5_labels_width h5,
      label_start_ix = h5_label_start_ix h5,
      label_end_ix = h5_label_end_ix h5,
      split_ix = build_split_ix (opt_train_only op) imgs,
      iterators = [''train'' \<mapsto> 0, ''val'' \<mapsto> 0, ''test'' \<mapsto> 0],
      prefetch_process =
        [''train'' \<mapsto> BlobFetcher_init ''train'' sh,
         ''val'' \<mapsto> BlobFetcher_init ''val'' False,
         ''test'' \<mapsto> BlobFetcher_init ''test'' False]\<rparr>"

text \<open>\<^verbatim>\<open>DataLoader.reset_iterator\<close>: \<^verbatim>\<open>del\<close> raises on a key that is not there.\<close>

definition reset_iterator :: "DataLoader \<Rightarrow> string \<Rightarrow> error + DataLoader" where
  "reset_iterator self split =
     (case prefetch_process self split of
        None \<Rightarrow> Inl KeyError
      | Some old \<Rightarrow>
          Inr (self\<lparr>prefetch_process :=
                       (prefetch_process self)
                         (split \<mapsto> BlobFetcher_init split (allow_shuffle self \<and> split = ''train'')),
                     iterators := (iterators self)(split \<mapsto> 0)\<rparr>))"

definition get_split_size :: "DataLoader \<Rightarrow> string \<Rightarrow> error + nat" where
  "get_split_size self split =
     (case split_ix self split of None \<Rightarrow> Inl KeyError | Some xs \<Rightarrow> Inr (length xs))"

section \<open>The prefetcher\<close>

text \<open>
  \<^verbatim>\<open>BlobFetcher.reset\<close>: a new loader iterator over
  \<^verbatim>\<open>split_ix[split][iterators[split]:]\<close>, a copy of the tail of the split's order.
\<close>

definition BlobFetcher_reset :: "blob_fetcher \<Rightarrow> DataLoader \<Rightarrow> error + blob_fetcher" where
  "BlobFetcher_reset f dl =
     (case split_ix dl (bf_split f) of
        None \<Rightarrow> Inl KeyError
      | Some xs \<Rightarrow>
          (case iterators dl (bf_split f) of
             None \<Rightarrow> Inl KeyError
           | Some it \<Rightarrow> Inr (f\<lparr>split_loader := Some (drop it xs)\<rparr>)))"

text \<open>\<^verbatim>\<open>BlobFetcher._get_next_minibatch_inds\<close>.\<close>

definition get_next_minibatch_inds ::
  "blob_fetcher \<Rightarrow> DataLoader \<Rightarrow> rng \<Rightarrow> error + ((nat \<times> bool) \<times> DataLoader \<times> rng)" where
  "get_next_minibatch_inds f dl r =
     (case split_ix dl (bf_split f) of
        None \<Rightarrow> Inl KeyError
      | Some xs \<Rightarrow>
          (case iterators dl (bf_split f) of
             None \<Rightarrow> Inl KeyError
           | Some ri \<Rightarrow>
               if \<not> ri < length xs then Inl IndexError
               else if ri + 1 \<ge> length xs then
                 (if if_shuffle f then
                    Inr ((xs ! ri, True),
                         dl\<lparr>split_ix := (split_ix dl)(bf_split f \<mapsto> fst (shuffle xs r)),
                            iterators := (iterators dl)(bf_split f \<mapsto> 0)\<rparr>,
                         snd (shuffle xs r))
                  else
                    Inr ((xs ! ri, True), dl\<lparr>iterators := (iterators dl)(bf_split f \<mapsto> 0)\<rparr>, r))
               else
                 Inr ((xs ! ri, False), dl\<lparr>iterators := (iterators dl)(bf_split f \<mapsto> ri + 1)\<rparr>, r)))"

text \<open>
  \<^verbatim>\<open>DataLoader.__getitem__\<close>, run by the loader iterator for the next index of its
  sampler: it looks the image record up and reads the feature files named after it. The
  files are taken to be readable; the example is its image index.
\<close>

definition getitem :: "DataLoader \<Rightarrow> nat \<Rightarrow> error + nat" where
  "getitem dl index = (if index < length (images dl) then Inr index else Inl IndexError)"

text \<open>
  \<^verbatim>\<open>self._prefetch_process[key].get()\<close>: the dictionary look-up of \<^verbatim>\<open>get_batch\<close>
  followed by \<^verbatim>\<open>BlobFetcher.get\<close>. The result is the example's image index and the
  wrap flag.
\<close>

definition BlobFetcher_get ::
  "string \<Rightarrow> DataLoader \<Rightarrow> rng \<Rightarrow> error + ((nat \<times> bool) \<times> DataLoader \<times> rng)" where
  "BlobFetcher_get key dl r =
     (case prefetch_process dl key of
        None \<Rightarrow> Inl KeyError
      | Some f \<Rightarrow>
          (case (if split_loader f = None then BlobFetcher_reset f dl else Inr f) of
             Inl e \<Rightarrow> Inl e
           | Inr f1 \<Rightarrow>
               (case get_next_minibatch_inds f1 dl r of
                  Inl e \<Rightarrow> Inl e
                | Inr (iw, dl1, r1) \<Rightarrow>
                    (case split_loader f1 of
                       None \<Rightarrow> Inl StopIteration
                     | Some [] \<Rightarrow> Inl StopIteration
                     | Some (t # rest) \<Rightarrow>
                         (case getitem dl1 t of
                            Inl e \<Rightarrow> Inl e
                          | Inr tmp \<Rightarrow>
                              (case (if snd iw
                                     then BlobFetcher_reset (f1\<lparr>split_loader := Some rest\<rparr>) dl1
                                     else Inr (f1\<lparr>split_loader := Some rest\<rparr>)) of
                                 Inl e \<Rightarrow> Inl e
                               | Inr f2 \<Rightarrow>
                                   if tmp \<noteq> fst iw then Inl AssertionError
                                   else Inr ((tmp, snd iw),
                                             dl1\<lparr>prefetch_process := (prefetch_process dl1)(key \<mapsto> f2)\<rparr>,
                                             r1)))))))"

section \<open>Caption sampling\<close>

text \<open>
  The subsampling loop of \<^verbatim>\<open>_get_sequence\<close> (lines 147 to 150): one draw per row,
  the row read from the table and cut to \<open>seq_length\<close> columns.
\<close>

fun subsample :: "DataLoader \<Rightarrow> int \<Rightarrow> int \<Rightarrow> nat \<Rightarrow> rng \<Rightarrow> error + (int list list \<times> rng)" where
  "subsample self ix1 ix2 0 r = Inr ([], r)"
| "subsample self ix1 ix2 (Suc q) r =
     (case randint ix1 ix2 r of
        Inl e \<Rightarrow> Inl e
      | Inr (ixl, r1) \<Rightarrow>
          (case py_index (labels_table self) ixl of
             Inl e \<Rightarrow> Inl e
           | Inr row \<Rightarrow>
               (case subsample self ix1 ix2 q r1 of
                  Inl e \<Rightarrow> Inl e
                | Inr (rest, r2) \<Rightarrow> Inr (take (seq_length self) row # rest, r2))))"

text \<open>\<^verbatim>\<open>DataLoader._get_sequence\<close>.\<close>

definition get_sequence ::
  "DataLoader \<Rightarrow> nat \<Rightarrow> int \<Rightarrow> rng \<Rightarrow> error + (int list list \<times> rng)" where
  "get_sequence self ix spi r =
     (case nth_res (label_start_ix self) ix of
        Inl e \<Rightarrow> Inl e
      | Inr s \<Rightarrow>
          (case nth_res (label_end_ix self) ix of
             Inl e \<Rightarrow> Inl e
           | Inr en \<Rightarrow>
               if \<not> (en - 1) - (s - 1) + 1 > 0 then Inl AssertionError
               else if (en - 1) - (s - 1) + 1 < spi then subsample self (s - 1) (en - 1) (nat spi) r
               else
                 (case randint (s - 1) ((en - 1) - spi + 1) r of
                    Inl e \<Rightarrow> Inl e
                  | Inr (ixl, r1) \<Rightarrow>
                      Inr (map (take (seq_length self))
                             (py_slice (labels_table self) ixl (ixl + spi)), r1))))"

section \<open>Batch assembly\<close>

record info_dict =
  info_ix :: nat
  info_id :: int
  info_file_path :: string

text \<open>\<^verbatim>\<open>DataLoader._make_info_dict\<close>.\<close>

definition make_info_dict :: "DataLoader \<Rightarrow> nat \<Rightarrow> error + info_dict" where
  "make_info_dict self ix =
     (case nth_res (images self) ix of
        Inl e \<Rightarrow> Inl e
      | Inr img \<Rightarrow> Inr \<lparr>info_ix = ix, info_id = img_id img, info_file_path = img_file_path img\<rparr>)"

text \<open>
  The local variables \<^verbatim>\<open>get_batch\<close> fills while it fetches. A row of \<open>fc_batch\<close> is
  the image index whose feature vector the row holds.
\<close>

record batch_acc =
  fc_batch :: "nat list"
  tmp_label_batch :: "int list list"
  infos_acc :: "info_dict list"
  gts_acc :: "int list list list"

record bounds_dict =
  it_pos_now :: nat
  it_max :: nat
  wrapped :: bool

text \<open>The dictionary \<^verbatim>\<open>get_batch\<close> returns; mask entries are 0 or 1.\<close>

record batch =
  fc_feats :: "nat list"
  labels :: "int list list"
  gts :: "int list list list"
  masks :: "int list list"
  bounds :: bounds_dict
  infos :: "info_dict list"

text \<open>\<^verbatim>\<open>np.zeros([n, w])\<close>.\<close>

definition zeros :: "nat \<Rightarrow> nat \<Rightarrow> int list list" where
  "zeros n w = replicate n (replicate w 0)"

text \<open>\<^verbatim>\<open>row[1 : L + 1] = vals\<close> on a row of \<open>L + 2\<close> columns.\<close>

definition write_cols :: "nat \<Rightarrow> int list \<Rightarrow> int list \<Rightarrow> int list" where
  "write_cols L row vals = take 1 row @ vals @ drop (L + 1) row"

text \<open>
  \<^verbatim>\<open>tmp[a:b, 1 : L + 1] = seq\<close>. The assignment broadcasts a single row over the
  block and raises \<^verbatim>\<open>ValueError\<close> when the shapes do not agree.
\<close>

definition assign_block ::
  "nat \<Rightarrow> int \<Rightarrow> int \<Rightarrow> int list list \<Rightarrow> int list list \<Rightarrow> error + int list list" where
  "assign_block L a b tmp seq =
     (if list_all (\<lambda>row. length row = L) seq \<and>
         (length seq = slice_bound (length tmp) b - slice_bound (length tmp) a \<or> length seq = 1)
      then Inr (take (slice_bound (length tmp) a) tmp @
                map2 (write_cols L)
                  (py_slice tmp a b)
                  (if length seq = slice_bound (length tmp) b - slice_bound (length tmp) a
                   then seq
                   else replicate (slice_bound (length tmp) b - slice_bound (length tmp) a) (hd seq)) @
                drop (slice_bound (length tmp) a + length (py_slice tmp a b)) tmp)
      else Inl ValueError)"

text \<open>The body of the fetch loop of \<^verbatim>\<open>get_batch\<close> (lines 181 to 207), for index \<open>i\<close>.\<close>

definition batch_body ::
  "string \<Rightarrow> int \<Rightarrow> nat \<Rightarrow> DataLoader \<times> rng \<times> batch_acc
     \<Rightarrow> error + (bool \<times> DataLoader \<times> rng \<times> batch_acc)" where
  "batch_body split spi i st =
     (case BlobFetcher_get split (fst st) (fst (snd st)) of
        Inl e \<Rightarrow> Inl e
      | Inr (iw, self1, r1) \<Rightarrow>
          (case get_sequence self1 (fst iw) spi r1 of
             Inl e \<Rightarrow> Inl e
           | Inr (seq, r2) \<Rightarrow>
               (case assign_block (seq_length self1) (int i * spi) ((int i + 1) * spi)
                       (tmp_label_batch (snd (snd st))) seq of
                  Inl e \<Rightarrow> Inl e
                | Inr tmp \<Rightarrow>
                    (case nth_res (label_start_ix self1) (fst iw) of
                       Inl e \<Rightarrow> Inl e
                     | Inr s \<Rightarrow>
                         (case nth_res (label_end_ix self1) (fst iw) of
                            Inl e \<Rightarrow> Inl e
                          | Inr en \<Rightarrow>
                              (case make_info_dict self1 (fst iw) of
                                 Inl e \<Rightarrow> Inl e
                               | Inr info \<Rightarrow>
                                   Inr (snd iw, self1, r2,
                                        \<lparr>fc_batch = fc_batch (snd (snd st)) @ replicate (nat spi) (fst iw),
                                         tmp_label_batch = tmp,
                                         infos_acc = infos_acc (snd (snd st)) @ [info],
                                         gts_acc = gts_acc (snd (snd st)) @
                                                     [py_slice (labels_table self1) (s - 1) en]\<rparr>)))))))"

text \<open>
  \<^verbatim>\<open>for i in range(batch_size)\<close> with its \<^verbatim>\<open>break\<close>. The second argument is the value
  \<^verbatim>\<open>i\<close> has when no further iteration runs; the result carries the final \<^verbatim>\<open>i\<close> and
  \<^verbatim>\<open>wrapped\<close>.
\<close>

fun batch_loop ::
  "string \<Rightarrow> int \<Rightarrow> nat list \<Rightarrow> nat \<Rightarrow> DataLoader \<times> rng \<times> batch_acc
     \<Rightarrow> error + (nat \<times> bool \<times> DataLoader \<times> rng \<times> batch_acc)" where
  "batch_loop split spi [] i st = Inr (i, False, st)"
| "batch_loop split spi (j # js) i st =
     (case batch_body split spi j st of
        Inl e \<Rightarrow> Inl e
      | Inr (tmp_wrapped, st1) \<Rightarrow>
          if tmp_wrapped then Inr (j, True, st1) else batch_loop split spi js j st1)"

text \<open>\<^verbatim>\<open>for i in range(n): label_batch[i, :] = tmp_label_batch[i, :]\<close> (lines 213, 214).\<close>

fun copy_rows :: "nat list \<Rightarrow> int list list \<Rightarrow> int list list \<Rightarrow> error + int list list" where
  "copy_rows [] tmp lb = Inr lb"
| "copy_rows (i # is) tmp lb =
     (if i < length tmp \<and> i < length lb then copy_rows is tmp (lb[i := tmp ! i])
      else Inl IndexError)"

text \<open>\<^verbatim>\<open>(x != 0).sum()\<close>.\<close>

definition count_nonzero :: "int list \<Rightarrow> nat" where
  "count_nonzero x = length (filter (\<lambda>v. v \<noteq> 0) x)"

text \<open>\<^verbatim>\<open>row[:k] = 1\<close>.\<close>

definition fill_prefix :: "nat \<Rightarrow> int list \<Rightarrow> int list" where
  "fill_prefix k row = replicate (min k (length row)) 1 @ drop k row"

text \<open>Lines 209 to 232: the label and mask matrices and the returned dictionary.\<close>

definition finish_batch ::
  "string \<Rightarrow> int \<Rightarrow> nat \<Rightarrow> bool \<Rightarrow> DataLoader \<Rightarrow> rng \<Rightarrow> batch_acc
     \<Rightarrow> error + (batch \<times> DataLoader \<times> rng)" where
  "finish_batch split spi actual_batch_size wr self r acc =
     (if int actual_batch_size * spi < 0 then Inl ValueError
      else
        (case copy_rows [0..<actual_batch_size] (tmp_label_batch acc)
                (zeros (nat (int actual_batch_size * spi)) (seq_length self + 2)) of
           Inl e \<Rightarrow> Inl e
         | Inr label_batch \<Rightarrow>
             if fc_batch acc = [] then Inl ValueError
             else
               (case iterators self split of
                  None \<Rightarrow> Inl KeyError
                | Some pos \<Rightarrow>
                    (case split_ix self split of
                       None \<Rightarrow> Inl KeyError
                     | Some xs \<Rightarrow>
                         Inr (\<lparr>fc_feats = fc_batch acc,
                               labels = label_batch,
                               gts = gts_acc acc,
                               masks = map2 fill_prefix
                                         (map (\<lambda>x. count_nonzero x + 2) label_batch)
                                         (zeros (nat (int actual_batch_size * spi)) (seq_length self + 2)),
                               bounds = \<lparr>it_pos_now = pos, it_max = length xs, wrapped = wr\<rparr>,
                               infos = infos_acc acc\<rparr>,
                              self, r)))))"

text \<open>\<^verbatim>\<open>DataLoader.get_batch\<close>.\<close>

definition get_batch ::
  "DataLoader \<Rightarrow> rng \<Rightarrow> string \<Rightarrow> int option \<Rightarrow> int option \<Rightarrow> error + (batch \<times> DataLoader \<times> rng)" where
  "get_batch self r split batch_size_arg seq_per_img_arg =
     (if py_or batch_size_arg (batch_size self) * py_or seq_per_img_arg (seq_per_img self) < 0
      then Inl ValueError
      else
        (case batch_loop split (py_or seq_per_img_arg (seq_per_img self))
                [0..<nat (py_or batch_size_arg (batch_size self))] 0
                (self, r,
                 \<lparr>fc_batch = [],
                  tmp_label_batch =
                    zeros (nat (py_or batch_size_arg (batch_size self) *
                                py_or seq_per_img_arg (seq_per_img self)))
                      (seq_length self + 2),
                  infos_acc = [],
                  gts_acc = []\<rparr>) of
           Inl e \<Rightarrow> Inl e
         | Inr (i, wr, self1, r1, acc) \<Rightarrow>
             finish_batch split (py_or seq_per_img_arg (seq_per_img self)) (i + 1) wr self1 r1 acc))"

section \<open>Runs and example data\<close>

text \<open>
  \<open>k\<close> consecutive calls of \<^verbatim>\<open>_get_next_minibatch_inds\<close> on one fetcher, with the
  results in call order.
\<close>

fun next_inds_run ::
  "nat \<Rightarrow> blob_fetcher \<Rightarrow> DataLoader \<Rightarrow> rng \<Rightarrow> error + ((nat \<times> bool) list \<times> DataLoader \<times> rng)" where
  "next_inds_run 0 f dl r = Inr ([], dl, r)"
| "next_inds_run (Suc k) f dl r =
     (case get_next_minibatch_inds f dl r of
        Inl e \<Rightarrow> Inl e
      | Inr (iw, dl1, r1) \<Rightarrow>
          (case next_inds_run k f dl1 r1 of
             Inl e \<Rightarrow> Inl e
           | Inr (rest, dl2, r2) \<Rightarrow> Inr (iw # rest, dl2, r2)))"

text \<open>
  \<open>k\<close> consecutive fetches as \<^verbatim>\<open>get_batch\<close> performs them: one \<^verbatim>\<open>get()\<close> on the
  split's prefetcher, then the caption draw for the image it returned. The result lists
  the image index and wrap flag of every \<^verbatim>\<open>get()\<close> in call order.
\<close>

fun fetch_run ::
  "nat \<Rightarrow> string \<Rightarrow> int \<Rightarrow> DataLoader \<Rightarrow> rng \<Rightarrow> error + ((nat \<times> bool) list \<times> DataLoader \<times> rng)" where
  "fetch_run 0 split spi dl r = Inr ([], dl, r)"
| "fetch_run (Suc k) split spi dl r =
     (case BlobFetcher_get split dl r of
        Inl e \<Rightarrow> Inl e
      | Inr (iw, dl1, r1) \<Rightarrow>
          (case get_sequence dl1 (fst iw) spi r1 of
             Inl e \<Rightarrow> Inl e
           | Inr (seq, r2) \<Rightarrow>
               (case fetch_run k split spi dl1 r2 of
                  Inl e \<Rightarrow> Inl e
                | Inr (rest, dl2, r3) \<Rightarrow> Inr (iw # rest, dl2, r3))))"

text \<open>A row of a label matrix: \<open>L + 2\<close> columns, the first and the last of them 0.\<close>

definition row_ok :: "nat \<Rightarrow> int list \<Rightarrow> bool" where
  "row_ok L row = (length row = L + 2 \<and> hd row = 0 \<and> last row = 0)"

text \<open>The images the constructor puts on the train list.\<close>

definition in_train :: "int \<Rightarrow> image list \<Rightarrow> nat \<Rightarrow> bool" where
  "in_train train_only imgs ix =
     (img_split (imgs ! ix) = ''train'' \<or>
      (img_split (imgs ! ix) \<noteq> ''val'' \<and> img_split (imgs ! ix) \<noteq> ''test'' \<and> train_only = 0))"

text \<open>
  A ten-image metadata list: three train, two val, two test and three images with
  another label.
\<close>

definition imgs10 :: "image list" where
  "imgs10 = map (\<lambda>(s, n). \<lparr>img_split = s, img_id = n, img_file_path = ''f''\<rparr>)
     [(''train'', 0), (''val'', 1), (''restval'', 2), (''test'', 3), (''train'', 4),
      (''restval'', 5), (''val'', 6), (''test'', 7), (''train'', 8), (''restval'', 9)]"

definition h5_empty :: h5_file where
  "h5_empty = \<lparr>h5_labels = [], h5_labels_width = 0, h5_label_start_ix = [], h5_label_end_ix = []\<rparr>"

definition opt10 :: opt where
  "opt10 = \<lparr>opt_batch_size = 2, opt_seq_per_img = 3, opt_train_only = 0\<rparr>"

text \<open>
  A three-image dataset with captions of two tokens: image 0 (train) owns table rows 0
  and 1, image 1 (restval) owns row 2, image 2 (val) owns rows 3 and 4.
\<close>

definition ex_images :: "image list" where
  "ex_images =
     [\<lparr>img_split = ''train'', img_id = 10, img_file_path = ''a.jpg''\<rparr>,
      \<lparr>img_split = ''restval'', img_id = 11, img_file_path = ''b.jpg''\<rparr>,
      \<lparr>img_split = ''val'', img_id = 12, img_file_path = ''c.jpg''\<rparr>]"

definition ex_h5 :: h5_file where
  "ex_h5 = \<lparr>h5_labels = [[5, 6], [7, 8], [9, 0], [1, 2], [3, 4]], h5_labels_width = 2,
            h5_label_start_ix = [1, 3, 4], h5_label_end_ix = [2, 3, 5]\<rparr>"

definition ex_opt :: opt where
  "ex_opt = \<lparr>opt_batch_size = 2, opt_seq_per_img = 2, opt_train_only = 0\<rparr>"

text \<open>The loader over that dataset, without and with shuffling, and a random source.\<close>

definition ex_loader :: DataLoader where
  "ex_loader = DataLoader_init ex_opt False ex_images ex_h5"

definition ex_loader_shuffle :: DataLoader where
  "ex_loader_shuffle = DataLoader_init ex_opt True ex_images ex_h5"

definition ex_rng :: rng where
  "ex_rng = (\<lambda>n. n)"

text \<open>
  What \<^verbatim>\<open>get_batch('train', 1, 2)\<close> returns on the example loader, and the loader it
  leaves behind.
\<close>

definition ex_batch_one :: batch where
  "ex_batch_one =
     \<lparr>fc_feats = [0, 0],
      labels = [[0, 5, 6, 0], [0, 0, 0, 0]],
      gts = [[[5, 6], [7, 8]]],
      masks = [[1, 1, 1, 1], [1, 1, 0, 0]],
      bounds = \<lparr>it_pos_now = 1, it_max = 2, wrapped = False\<rparr>,
      infos = [\<lparr>info_ix = 0, info_id = 10, info_file_path = ''a.jpg''\<rparr>]\<rparr>"

definition ex_loader_one :: DataLoader where
  "ex_loader_one =
     ex_loader\<lparr>iterators := (iterators ex_loader)(''train'' \<mapsto> 1),
               prefetch_process := (prefetch_process ex_loader)
                 (''train'' \<mapsto> \<lparr>bf_split = ''train'', if_shuffle = False,
                                 split_loader = Some [1]\<rparr>)\<rparr>"

text \<open>The same for \<^verbatim>\<open>get_batch('train', 3, 1)\<close>, which wraps after two images.\<close>

definition ex_batch_wrap :: batch where
  "ex_batch_wrap =
     \<lparr>fc_feats = [0, 1],
      labels = [[0, 5, 6, 0], [0, 9, 0, 0]],
      gts = [[[5, 6], [7, 8]], [[9, 0]]],
      masks = [[1, 1, 1, 1], [1, 1, 1, 0]],
      bounds = \<lparr>it_pos_now = 0, it_max = 2, wrapped = True\<rparr>,
      infos = [\<lparr>info_ix = 0, info_id = 10, info_file_path = ''a.jpg''\<rparr>,
               \<lparr>info_ix = 1, info_id = 11, info_file_path = ''b.jpg''\<rparr>]\<rparr>"

definition ex_loader_wrap :: DataLoader where
  "ex_loader_wrap =
     ex_loader\<lparr>iterators := (iterators ex_loader)(''train'' \<mapsto> 0),
               prefetch_process := (prefetch_process ex_loader)
                 (''train'' \<mapsto> \<lparr>bf_split = ''train'', if_shuffle = False,
                                 split_loader = Some [0, 1]\<rparr>)\<rparr>"

text \<open>The loader after that first batch and a \<^verbatim>\<open>reset_iterator('train')\<close>.\<close>

definition ex_loader_reset :: DataLoader where
  "ex_loader_reset =
     ex_loader_one\<lparr>prefetch_process := (prefetch_process ex_loader_one)
                     (''train'' \<mapsto> \<lparr>bf_split = ''train'', if_shuffle = False,
                                     split_loader = None\<rparr>),
                   iterators := (iterators ex_loader_one)(''train'' \<mapsto> 0)\<rparr>"

text \<open>
  A dataset whose second image has no caption: its pointers are start 2 and end 1. The
  first image (train) owns the only table row.
\<close>

definition zc_images :: "image list" where
  "zc_images =
     [\<lparr>img_split = ''train'', img_id = 20, img_file_path = ''p.jpg''\<rparr>,
      \<lparr>img_split = ''val'', img_id = 21, img_file_path = ''q.jpg''\<rparr>]"

definition zc_h5 :: h5_file where
  "zc_h5 = \<lparr>h5_labels = [[5, 6]], h5_labels_width = 2,
            h5_label_start_ix = [1, 2], h5_label_end_ix = [1, 1]\<rparr>"

definition zc_loader :: DataLoader where
  "zc_loader = DataLoader_init ex_opt False zc_images zc_h5"

text \<open>What \<^verbatim>\<open>get_batch('train', 1, 1)\<close> returns on that loader, and the loader afterwards.\<close>

definition zc_batch :: batch where
  "zc_batch =
     \<lparr>fc_feats = [0],
      labels = [[0, 5, 6, 0]],
      gts = [[[5, 6]]],
      masks = [[1, 1, 1, 1]],
      bounds = \<lparr>it_pos_now = 0, it_max = 1, wrapped = True\<rparr>,
      infos = [\<lparr>info_ix = 0, info_id = 20, info_file_path = ''p.jpg''\<rparr>]\<rparr>"

definition zc_loader_after :: DataLoader where
  "zc_loader_after =
     zc_loader\<lparr>iterators := (iterators zc_loader)(''train'' \<mapsto> 0),
               prefetch_process := (prefetch_process zc_loader)
                 (''train'' \<mapsto> \<lparr>bf_split = ''train'', if_shuffle = False,
                                 split_loader = Some [0]\<rparr>)\<rparr>"





section \<open>Splits at load time\<close>

lemma assign_split_train:
  "d ''train'' = Some a \<Longrightarrow>
   assign_split t imgs d ix ''train'' = Some (a @ filter (in_train t imgs) [ix])"
  by (simp add: assign_split_def dict_append_def in_train_def)

lemma assign_split_val:
  "d ''val'' = Some a \<Longrightarrow>
   assign_split t imgs d ix ''val'' = Some (a @ filter (\<lambda>i. img_split (imgs ! i) = ''val'') [ix])"
  by (simp add: assign_split_def dict_append_def)

lemma assign_split_test:
  "d ''test'' = Some a \<Longrightarrow>
   assign_split t imgs d ix ''test'' = Some (a @ filter (\<lambda>i. img_split (imgs ! i) = ''test'') [ix])"
  by (simp add: assign_split_def dict_append_def)

lemma foldl_assign_train:
  "d ''train'' = Some a \<Longrightarrow>
   foldl (assign_split t imgs) d xs ''train'' = Some (a @ filter (in_train t imgs) xs)"
proof (induction xs arbitrary: d a)
  case Nil
  then show ?case by simp
next
  case (Cons x xs)
  have step: "assign_split t imgs d x ''train'' = Some (a @ filter (in_train t imgs) [x])"
    using Cons.prems by (rule assign_split_train)
  show ?case
    using Cons.IH [of "assign_split t imgs d x" "a @ filter (in_train t imgs) [x]"] step by simp
qed

lemma foldl_assign_val:
  "d ''val'' = Some a \<Longrightarrow>
   foldl (assign_split t imgs) d xs ''val'' =
     Some (a @ filter (\<lambda>i. img_split (imgs ! i) = ''val'') xs)"
proof (induction xs arbitrary: d a)
  case Nil
  then show ?case by simp
next
  case (Cons x xs)
  have step: "assign_split t imgs d x ''val'' =
      Some (a @ filter (\<lambda>i. img_split (imgs ! i) = ''val'') [x])"
    using Cons.prems by (rule assign_split_val)
  show ?case
    using Cons.IH [of "assign_split t imgs d x"
        "a @ filter (\<lambda>i. img_split (imgs ! i) = ''val'') [x]"] step by simp
qed

lemma foldl_assign_test:
  "d ''test'' = Some a \<Longrightarrow>
   foldl (assign_split t imgs) d xs ''test'' =
     Some (a @ filter (\<lambda>i. img_split (imgs ! i) = ''test'') xs)"
proof (induction xs arbitrary: d a)
  case Nil
  then show ?case by simp
next
  case (Cons x xs)
  have step: "assign_split t imgs d x ''test'' =
      Some (a @ filter (\<lambda>i. img_split (imgs ! i) = ''test'') [x])"
    using Cons.prems by (rule assign_split_test)
  show ?case
    using Cons.IH [of "assign_split t imgs d x"
        "a @ filter (\<lambda>i. img_split (imgs ! i) = ''test'') [x]"] step by simp
qed

lemma three_way_count:
  "length (filter (in_train 0 imgs) xs) +
   length (filter (\<lambda>i. img_split (imgs ! i) = ''val'') xs) +
   length (filter (\<lambda>i. img_split (imgs ! i) = ''test'') xs) = length xs"
  by (induction xs) (auto simp: in_train_def)

lemma in_train_unfold:
  "in_train t imgs = (\<lambda>ix. img_split (imgs ! ix) = ''train'' \<or>
      (img_split (imgs ! ix) \<noteq> ''train'' \<and> img_split (imgs ! ix) \<noteq> ''val'' \<and>
       img_split (imgs ! ix) \<noteq> ''test'' \<and> t = 0))"
  by (auto simp: in_train_def fun_eq_iff)

lemma build_split_ix_train:
  "build_split_ix t imgs ''train'' = Some (filter (in_train t imgs) [0..<length imgs])"
  using foldl_assign_train [of empty_splits "[]" t imgs "[0..<length imgs]"]
  by (simp add: build_split_ix_def empty_splits_def)

lemma build_split_ix_val:
  "build_split_ix t imgs ''val'' =
     Some (filter (\<lambda>i. img_split (imgs ! i) = ''val'') [0..<length imgs])"
  using foldl_assign_val [of empty_splits "[]" t imgs "[0..<length imgs]"]
  by (simp add: build_split_ix_def empty_splits_def)

lemma build_split_ix_test:
  "build_split_ix t imgs ''test'' =
     Some (filter (\<lambda>i. img_split (imgs ! i) = ''test'') [0..<length imgs])"
  using foldl_assign_test [of empty_splits "[]" t imgs "[0..<length imgs]"]
  by (simp add: build_split_ix_def empty_splits_def)

text \<open>
  C7. The constructor puts an image index on the train list exactly when its label is
  \<^verbatim>\<open>train\<close>, or is none of \<^verbatim>\<open>train\<close>, \<^verbatim>\<open>val\<close>, \<^verbatim>\<open>test\<close> while \<^verbatim>\<open>train_only\<close> is 0;
  on the val list exactly when the label is \<^verbatim>\<open>val\<close>; on the test list exactly when it
  is \<^verbatim>\<open>test\<close>; each list is in image order without repetition. With \<^verbatim>\<open>train_only = 0\<close>
  the three split sizes add up to the number of image records.
\<close>

theorem C7_split_assignment:
  "split_ix (DataLoader_init op sh imgs h5) ''train'' =
     Some (filter (\<lambda>ix. img_split (imgs ! ix) = ''train'' \<or>
                    (img_split (imgs ! ix) \<noteq> ''train'' \<and> img_split (imgs ! ix) \<noteq> ''val'' \<and>
                     img_split (imgs ! ix) \<noteq> ''test'' \<and> opt_train_only op = 0))
             [0..<length imgs]) \<and>
   split_ix (DataLoader_init op sh imgs h5) ''val'' =
     Some (filter (\<lambda>ix. img_split (imgs ! ix) = ''val'') [0..<length imgs]) \<and>
   split_ix (DataLoader_init op sh imgs h5) ''test'' =
     Some (filter (\<lambda>ix. img_split (imgs ! ix) = ''test'') [0..<length imgs]) \<and>
   (opt_train_only op = 0 \<longrightarrow>
      (\<exists>tr va te.
         get_split_size (DataLoader_init op sh imgs h5) ''train'' = Inr tr \<and>
         get_split_size (DataLoader_init op sh imgs h5) ''val'' = Inr va \<and>
         get_split_size (DataLoader_init op sh imgs h5) ''test'' = Inr te \<and>
         tr + va + te = length imgs))"
proof -
  have tr: "split_ix (DataLoader_init op sh imgs h5) ''train'' =
       Some (filter (in_train (opt_train_only op) imgs) [0..<length imgs])"
    by (simp add: DataLoader_init_def build_split_ix_train)
  have va: "split_ix (DataLoader_init op sh imgs h5) ''val'' =
       Some (filter (\<lambda>ix. img_split (imgs ! ix) = ''val'') [0..<length imgs])"
    by (simp add: DataLoader_init_def build_split_ix_val)
  have te: "split_ix (DataLoader_init op sh imgs h5) ''test'' =
       Some (filter (\<lambda>ix. img_split (imgs ! ix) = ''test'') [0..<length imgs])"
    by (simp add: DataLoader_init_def build_split_ix_test)
  have sizes: "opt_train_only op = 0 \<Longrightarrow>
      length (filter (in_train (opt_train_only op) imgs) [0..<length imgs]) +
      length (filter (\<lambda>ix. img_split (imgs ! ix) = ''val'') [0..<length imgs]) +
      length (filter (\<lambda>ix. img_split (imgs ! ix) = ''test'') [0..<length imgs]) = length imgs"
    using three_way_count [of imgs "[0..<length imgs]"] by simp
  show ?thesis
    using tr va te sizes by (simp add: get_split_size_def in_train_unfold)
qed

theorem C7_split_assignment_witness:
  "opt_train_only opt10 = 0 \<and>
   get_split_size (DataLoader_init opt10 True imgs10 h5_empty) ''train'' = Inr 6 \<and>
   get_split_size (DataLoader_init opt10 True imgs10 h5_empty) ''val'' = Inr 2 \<and>
   get_split_size (DataLoader_init opt10 True imgs10 h5_empty) ''test'' = Inr 2 \<and>
   6 + 2 + 2 = length imgs10"
  using C7_split_assignment [of opt10 True imgs10 h5_empty]
  by (simp add: get_split_size_def imgs10_def opt10_def upt_rec)

section \<open>The cursor and the order of a split\<close>

lemmas ex_eval =
  ex_loader_def ex_loader_shuffle_def DataLoader_init_def ex_opt_def ex_images_def ex_h5_def
  build_split_ix_def assign_split_def dict_append_def empty_splits_def BlobFetcher_init_def
  ex_rng_def upt_rec

lemma set_cursor_same:
  "iterators dl s = Some c \<Longrightarrow> dl\<lparr>iterators := (iterators dl)(s \<mapsto> c)\<rparr> = dl"
  by (simp add: map_upd_triv)

lemma next_inds_plain:
  assumes "split_ix dl (bf_split f) = Some xs" "iterators dl (bf_split f) = Some c"
    "Suc c < length xs"
  shows "get_next_minibatch_inds f dl r =
           Inr ((xs ! c, False), dl\<lparr>iterators := (iterators dl)(bf_split f \<mapsto> Suc c)\<rparr>, r)"
  using assms by (simp add: get_next_minibatch_inds_def)

lemma next_inds_wrap_plain:
  assumes "split_ix dl (bf_split f) = Some xs" "iterators dl (bf_split f) = Some c"
    "Suc c = length xs" "\<not> if_shuffle f"
  shows "get_next_minibatch_inds f dl r =
           Inr ((xs ! c, True), dl\<lparr>iterators := (iterators dl)(bf_split f \<mapsto> 0)\<rparr>, r)"
  using assms by (simp add: get_next_minibatch_inds_def)

lemma next_inds_run_general:
  assumes "split_ix dl (bf_split f) = Some xs" "iterators dl (bf_split f) = Some c"
    "c + k \<le> length xs" "c < length xs" "\<not> if_shuffle f"
  shows "next_inds_run k f dl r =
           Inr (map (\<lambda>i. (xs ! i, Suc i = length xs)) [c..<c + k],
                dl\<lparr>iterators := (iterators dl)(bf_split f \<mapsto> (if c + k = length xs then 0 else c + k))\<rparr>, r)"
  using assms
proof (induction k arbitrary: c dl)
  case 0
  show ?case
    using "0.prems" by (simp add: map_upd_triv)
next
  case (Suc k)
  show ?case
  proof (cases "Suc c = length xs")
    case True
    with Suc.prems have k0: "k = 0" by simp
    have A: "map (\<lambda>i. (xs ! i, Suc i = length xs)) [c..<c + Suc k] = [(xs ! c, True)]"
      using k0 True [symmetric] by simp
    have B: "(if c + Suc k = length xs then 0 else c + Suc k) = 0"
      using True [symmetric] k0 by simp
    have "next_inds_run (Suc 0) f dl r =
            Inr ([(xs ! c, True)], dl\<lparr>iterators := (iterators dl)(bf_split f \<mapsto> 0)\<rparr>, r)"
      by (simp add: next_inds_wrap_plain [OF Suc.prems(1,2) True Suc.prems(5)])
    then show ?thesis
      unfolding A B by (simp only: k0)
  next
    case False
    with Suc.prems have lt: "Suc c < length xs" by simp
    let ?dl1 = "dl\<lparr>iterators := (iterators dl)(bf_split f \<mapsto> Suc c)\<rparr>"
    have s1: "split_ix ?dl1 (bf_split f) = Some xs" using Suc.prems(1) by simp
    have c1: "iterators ?dl1 (bf_split f) = Some (Suc c)" by simp
    have b1: "Suc c + k \<le> length xs" using Suc.prems(3) by simp
    have ih: "next_inds_run k f ?dl1 r =
        Inr (map (\<lambda>i. (xs ! i, Suc i = length xs)) [Suc c..<Suc c + k],
             ?dl1\<lparr>iterators := (iterators ?dl1)(bf_split f \<mapsto> (if Suc c + k = length xs then 0 else Suc c + k))\<rparr>, r)"
      by (rule Suc.IH [OF s1 c1 b1 lt Suc.prems(5)])
    have up: "[c..<c + Suc k] = c # [Suc c..<Suc c + k]"
      by (simp add: upt_conv_Cons)
    have B: "(if c + Suc k = length xs then 0 else c + Suc k) =
             (if Suc c + k = length xs then 0 else Suc c + k)" by simp
    have C: "?dl1\<lparr>iterators := (iterators ?dl1)(bf_split f \<mapsto> (if Suc c + k = length xs then 0 else Suc c + k))\<rparr>
        = dl\<lparr>iterators := (iterators dl)(bf_split f \<mapsto> (if Suc c + k = length xs then 0 else Suc c + k))\<rparr>"
      by simp
    have "next_inds_run (Suc k) f dl r =
        Inr ((xs ! c, False) # map (\<lambda>i. (xs ! i, Suc i = length xs)) [Suc c..<Suc c + k],
             dl\<lparr>iterators := (iterators dl)(bf_split f \<mapsto> (if Suc c + k = length xs then 0 else Suc c + k))\<rparr>, r)"
      by (simp add: next_inds_plain [OF Suc.prems(1,2) lt] ih [unfolded C])
    moreover have "map (\<lambda>i. (xs ! i, Suc i = length xs)) (c # [Suc c..<Suc c + k]) =
        (xs ! c, False) # map (\<lambda>i. (xs ! i, Suc i = length xs)) [Suc c..<Suc c + k]"
      using False by simp
    ultimately show ?thesis
      unfolding up B by (simp only:)
  qed
qed

lemma zip_flags:
  "k \<le> length xs \<Longrightarrow> map (\<lambda>i. (xs ! i, P i)) [0..<k] = zip (take k xs) (map P [0..<k])"
  by (rule nth_equalityI) simp_all

text \<open>
  C4. On a split of \<open>N > 0\<close> indices whose fetcher does not shuffle, starting at cursor
  0: \<open>N\<close> consecutive index computations return the split's indices in the order of
  its list, each once, with the wrap flag set on the last call only, and leave the loader
  as it was, cursor 0 included; after \<open>k < N\<close> calls the results are the first \<open>k\<close>
  indices, all without the flag, and the cursor is \<open>k\<close>, so it stays below \<open>N\<close>.
\<close>

theorem C4_one_epoch_without_shuffle:
  assumes "split_ix dl (bf_split f) = Some xs" and "xs \<noteq> []"
    and "iterators dl (bf_split f) = Some 0" and "\<not> if_shuffle f"
  shows "next_inds_run (length xs) f dl r =
           Inr (zip xs (replicate (length xs - 1) False @ [True]), dl, r) \<and>
         (\<forall>k<length xs.
            next_inds_run k f dl r =
              Inr (zip (take k xs) (replicate k False),
                   dl\<lparr>iterators := (iterators dl)(bf_split f \<mapsto> k)\<rparr>, r))"
proof (intro conjI allI impI)
  have pos: "0 < length xs" using assms(2) by simp
  have flags: "map (\<lambda>i. Suc i = length xs) [0..<length xs] = replicate (length xs - 1) False @ [True]"
    using pos by (intro nth_equalityI) (auto simp: nth_append)
  have "next_inds_run (length xs) f dl r =
          Inr (map (\<lambda>i. (xs ! i, Suc i = length xs)) [0..<0 + length xs],
               dl\<lparr>iterators := (iterators dl)(bf_split f \<mapsto> (if 0 + length xs = length xs then 0 else 0 + length xs))\<rparr>, r)"
    by (rule next_inds_run_general [OF assms(1) assms(3) _ pos assms(4)]) simp
  then show "next_inds_run (length xs) f dl r =
           Inr (zip xs (replicate (length xs - 1) False @ [True]), dl, r)"
    using assms(3) by (simp add: zip_flags flags set_cursor_same)
next
  fix k assume k: "k < length xs"
  have flags: "map (\<lambda>i. Suc i = length xs) [0..<k] = replicate k False"
    using k by (intro nth_equalityI) auto
  have "next_inds_run k f dl r =
          Inr (map (\<lambda>i. (xs ! i, Suc i = length xs)) [0..<0 + k],
               dl\<lparr>iterators := (iterators dl)(bf_split f \<mapsto> (if 0 + k = length xs then 0 else 0 + k))\<rparr>, r)"
    by (rule next_inds_run_general [OF assms(1) assms(3) _ _ assms(4)]) (use k assms(2) in simp_all)
  then show "next_inds_run k f dl r =
              Inr (zip (take k xs) (replicate k False),
                   dl\<lparr>iterators := (iterators dl)(bf_split f \<mapsto> k)\<rparr>, r)"
    using k by (simp add: zip_flags flags)
qed

theorem C4_one_epoch_without_shuffle_witness:
  "split_ix ex_loader (bf_split (BlobFetcher_init ''train'' False)) = Some [0, 1] \<and>
   [0, 1 :: nat] \<noteq> [] \<and>
   iterators ex_loader (bf_split (BlobFetcher_init ''train'' False)) = Some 0 \<and>
   \<not> if_shuffle (BlobFetcher_init ''train'' False) \<and>
   next_inds_run 2 (BlobFetcher_init ''train'' False) ex_loader ex_rng =
     Inr ([(0, False), (1, True)], ex_loader, ex_rng) \<and>
   next_inds_run 1 (BlobFetcher_init ''train'' False) ex_loader ex_rng =
     Inr ([(0, False)], ex_loader\<lparr>iterators := (iterators ex_loader)(''train'' \<mapsto> 1)\<rparr>, ex_rng)"
proof -
  have h1: "split_ix ex_loader (bf_split (BlobFetcher_init ''train'' False)) = Some [0, 1]"
    by (simp add: ex_eval)
  have h2: "[0, 1 :: nat] \<noteq> []" by simp
  have h3: "iterators ex_loader (bf_split (BlobFetcher_init ''train'' False)) = Some 0"
    by (simp add: ex_eval)
  have h4: "\<not> if_shuffle (BlobFetcher_init ''train'' False)"
    by (simp add: BlobFetcher_init_def)
  note run = C4_one_epoch_without_shuffle [OF h1 h2 h3 h4, of ex_rng]
  have full: "next_inds_run 2 (BlobFetcher_init ''train'' False) ex_loader ex_rng =
     Inr ([(0, False), (1, True)], ex_loader, ex_rng)"
    using run [THEN conjunct1] by (simp add: numeral_2_eq_2 del: next_inds_run.simps)
  have part: "next_inds_run 1 (BlobFetcher_init ''train'' False) ex_loader ex_rng =
     Inr ([(0, False)], ex_loader\<lparr>iterators := (iterators ex_loader)(''train'' \<mapsto> 1)\<rparr>, ex_rng)"
    using run [THEN conjunct2, rule_format, of 1]
    by (simp add: BlobFetcher_init_def del: next_inds_run.simps)
  show ?thesis using h1 h2 h3 h4 full part by blast
qed

lemma mset_shuffle_loop:
  "i < length xs \<Longrightarrow> mset (fst (shuffle_loop i xs r)) = mset xs"
proof (induction i arbitrary: xs r)
  case 0
  then show ?case by simp
next
  case (Suc i)
  let ?j = "r 0 mod Suc (Suc i)"
  let ?ys = "xs[Suc i := xs ! ?j, ?j := xs ! Suc i]"
  have j: "?j < length xs" using Suc.prems by (meson less_trans_Suc mod_less_divisor not_less_eq zero_less_Suc less_Suc_eq_le order.strict_trans1)
  have "mset ?ys = mset xs" using Suc.prems j by (simp add: mset_swap)
  moreover have "i < length ?ys" using Suc.prems by simp
  ultimately show ?case using Suc.IH [of ?ys "rng_tail r"] by simp
qed

lemma mset_shuffle: "mset (fst (shuffle xs r)) = mset xs"
proof (cases xs)
  case Nil
  then show ?thesis by (simp add: shuffle_def)
next
  case (Cons a list)
  then show ?thesis by (simp add: shuffle_def mset_shuffle_loop)
qed

lemma next_inds_mset:
  assumes "get_next_minibatch_inds f dl r = Inr (iw, dl1, r1)" "split_ix dl s = Some xs"
  shows "\<exists>ys. split_ix dl1 s = Some ys \<and> mset ys = mset xs"
  using assms
  by (auto simp: get_next_minibatch_inds_def mset_shuffle split: option.splits if_splits)

text \<open>
  C8. A successful \<^verbatim>\<open>get()\<close> leaves every split's index list with the same multiset
  of indices, hence the same length, whether or not the call wraps and whether or not the
  fetcher shuffles: after a wrap with shuffling the list is a permutation of the list
  before.
\<close>

theorem C8_get_keeps_the_indices:
  assumes "BlobFetcher_get key dl r = Inr (res, dl1, r1)" and "split_ix dl s = Some xs"
  shows "\<exists>ys. split_ix dl1 s = Some ys \<and> mset ys = mset xs \<and> length ys = length xs"
proof -
  from assms(1) obtain f1 iw dl2 where
    step: "get_next_minibatch_inds f1 dl r = Inr (iw, dl2, r1)" and
    same: "split_ix dl1 = split_ix dl2"
    by (auto simp: BlobFetcher_get_def split: option.splits sum.splits list.splits if_splits)
  from next_inds_mset [OF step assms(2)] obtain ys where
    "split_ix dl2 s = Some ys" "mset ys = mset xs" by blast
  then show ?thesis using same by (auto dest: mset_eq_length)
qed


theorem C8_get_keeps_the_indices_witness:
  "\<exists>res dl1 r1.
     BlobFetcher_get ''train''
       (ex_loader_shuffle\<lparr>iterators := (iterators ex_loader_shuffle)(''train'' \<mapsto> 1)\<rparr>) ex_rng =
       Inr (res, dl1, r1) \<and>
     res = (1, True) \<and>
     split_ix (ex_loader_shuffle\<lparr>iterators := (iterators ex_loader_shuffle)(''train'' \<mapsto> 1)\<rparr>)
       ''train'' = Some [0, 1] \<and>
     split_ix dl1 ''train'' = Some [1, 0] \<and>
     mset [1, 0 :: nat] = mset [0, 1] \<and> length [1, 0 :: nat] = length [0, 1 :: nat]"
proof -
  let ?dl = "ex_loader_shuffle\<lparr>iterators := (iterators ex_loader_shuffle)(''train'' \<mapsto> 1)\<rparr>"
  have before: "split_ix ?dl ''train'' = Some [0, 1]"
    by (simp add: ex_eval)
  have "\<exists>dl1 r1. BlobFetcher_get ''train'' ?dl ex_rng = Inr ((1, True), dl1, r1) \<and>
          split_ix dl1 ''train'' = Some [1, 0]"
    by (simp add: ex_eval BlobFetcher_get_def BlobFetcher_reset_def get_next_minibatch_inds_def
          getitem_def shuffle_def)
  then obtain dl1 r1 where
    run: "BlobFetcher_get ''train'' ?dl ex_rng = Inr ((1, True), dl1, r1)" and
    after: "split_ix dl1 ''train'' = Some [1, 0]"
    by blast
  from C8_get_keeps_the_indices [OF run before] after
  have "mset [1, 0 :: nat] = mset [0, 1] \<and> length [1, 0 :: nat] = length [0, 1 :: nat]"
    by simp
  with run before after show ?thesis by blast
qed

section \<open>Caption sampling returns rows of the image\<close>







lemma get_sequence_needs_caption:
  assumes "get_sequence self ix spi r = Inr (seq, r1)"
  shows "\<exists>s en. nth_res (label_start_ix self) ix = Inr s \<and>
                 nth_res (label_end_ix self) ix = Inr en \<and> 0 < en - s + 1"
proof (cases "nth_res (label_start_ix self) ix")
  case (Inl e)
  with assms show ?thesis by (simp add: get_sequence_def)
next
  case s: (Inr s)
  show ?thesis
  proof (cases "nth_res (label_end_ix self) ix")
    case (Inl e)
    with assms s show ?thesis by (simp add: get_sequence_def)
  next
    case en: (Inr en)
    have "0 < en - s + 1"
    proof (rule ccontr)
      assume "\<not> 0 < en - s + 1"
      with assms s en show False by (simp add: get_sequence_def)
    qed
    with s en show ?thesis by simp
  qed
qed






section \<open>The fetch loop and the matrices of a batch\<close>

lemma next_inds_frame:
  assumes "get_next_minibatch_inds f dl r = Inr (iw, dl1, r1)"
  shows "seq_length dl1 = seq_length dl \<and> labels_table dl1 = labels_table dl \<and>
         label_start_ix dl1 = label_start_ix dl \<and> label_end_ix dl1 = label_end_ix dl \<and>
         images dl1 = images dl \<and> prefetch_process dl1 = prefetch_process dl"
  using assms
  by (auto simp: get_next_minibatch_inds_def split: option.splits if_splits)

lemma BlobFetcher_get_frame:
  assumes "BlobFetcher_get key dl r = Inr (iw, dl1, r1)"
  shows "seq_length dl1 = seq_length dl \<and> labels_table dl1 = labels_table dl \<and>
         label_start_ix dl1 = label_start_ix dl \<and> label_end_ix dl1 = label_end_ix dl \<and>
         images dl1 = images dl"
proof -
  from assms obtain f1 iw2 dl2 r2 where
    step: "get_next_minibatch_inds f1 dl r = Inr (iw2, dl2, r2)" and
    same: "seq_length dl1 = seq_length dl2" "labels_table dl1 = labels_table dl2"
      "label_start_ix dl1 = label_start_ix dl2" "label_end_ix dl1 = label_end_ix dl2"
      "images dl1 = images dl2"
    by (auto simp: BlobFetcher_get_def split: option.splits sum.splits list.splits if_splits)
  show ?thesis using next_inds_frame [OF step] same by simp
qed

lemma batch_body_Inr:
  assumes "batch_body split spi j (dl, r, acc) = Inr (w, dl1, r2, acc1)"
  shows "\<exists>ix r1 seq info.
           BlobFetcher_get split dl r = Inr ((ix, w), dl1, r1) \<and>
           get_sequence dl1 ix spi r1 = Inr (seq, r2) \<and>
           assign_block (seq_length dl1) (int j * spi) ((int j + 1) * spi)
             (tmp_label_batch acc) seq = Inr (tmp_label_batch acc1) \<and>
           infos_acc acc1 = infos_acc acc @ [info] \<and> info_ix info = ix \<and>
           fc_batch acc1 = fc_batch acc @ replicate (nat spi) ix"
  using assms
  by (auto simp: batch_body_def make_info_dict_def split: sum.splits prod.splits)

lemma slice_bound_le: "slice_bound n i \<le> n"
proof (cases "i < 0")
  case True
  then have "nat (int n + i) \<le> n" by linarith
  with True show ?thesis by (simp add: slice_bound_def)
next
  case False
  then show ?thesis by (simp add: slice_bound_def)
qed

lemma length_py_slice:
  "length (py_slice xs a b) = slice_bound (length xs) b - slice_bound (length xs) a"
  using slice_bound_le [of "length xs" b] by (simp add: py_slice_def)

lemma set_py_slice: "set (py_slice xs a b) \<subseteq> set xs"
  by (auto simp: py_slice_def dest: in_set_takeD in_set_dropD)

lemma write_cols_ok:
  assumes "row_ok L row" "length vals = L"
  shows "row_ok L (write_cols L row vals)"
proof -
  from assms(1) have len: "length row = L + 2" and h: "hd row = 0" and l: "last row = 0"
    by (simp_all add: row_ok_def)
  from len have ne: "row \<noteq> []" by auto
  have t: "take 1 row = [0]" using ne h by (cases row) simp_all
  have d: "drop (L + 1) row = [0]"
  proof -
    have "drop (L + 1) row = [row ! (L + 1)]"
      using len by (metis Suc_eq_plus1 add_2_eq_Suc' append_Nil2 drop_all lessI
          Cons_nth_drop_Suc order_refl)
    moreover have "row ! (L + 1) = last row" using len ne by (simp add: last_conv_nth)
    ultimately show ?thesis using l by simp
  qed
  have "write_cols L row vals = [0] @ vals @ [0]"
    unfolding write_cols_def t d ..
  then show ?thesis using assms(2) by (simp add: row_ok_def)
qed

lemma map2_write_cols_ok:
  assumes "list_all (row_ok L) rows" "list_all (\<lambda>v. length v = L) vs"
  shows "list_all (row_ok L) (map2 (write_cols L) rows vs)"
  using assms
proof (induction rows arbitrary: vs)
  case Nil
  then show ?case by simp
next
  case (Cons row rows)
  then show ?case by (cases vs) (simp_all add: write_cols_ok)
qed

lemma assign_block_rows:
  assumes "assign_block L a b tmp seq = Inr tmp1" "list_all (row_ok L) tmp"
  shows "list_all (row_ok L) tmp1 \<and> length tmp1 = length tmp"
proof -
  let ?lo = "slice_bound (length tmp) a" and ?hi = "slice_bound (length tmp) b"
  let ?vs = "if length seq = ?hi - ?lo then seq else replicate (?hi - ?lo) (hd seq)"
  from assms(1) have
    widths: "list_all (\<lambda>row. length row = L) seq" and
    shape: "length seq = ?hi - ?lo \<or> length seq = 1" and
    tmp1: "tmp1 = take ?lo tmp @ map2 (write_cols L) (py_slice tmp a b) ?vs @
             drop (?lo + length (py_slice tmp a b)) tmp"
    by (auto simp: assign_block_def split: if_splits)
  have vs_len: "length ?vs = ?hi - ?lo" by simp
  have vs_w: "list_all (\<lambda>v. length v = L) ?vs"
  proof (cases "length seq = ?hi - ?lo")
    case True
    then show ?thesis using widths by simp
  next
    case False
    with shape have "length seq = 1" by simp
    then have "hd seq \<in> set seq" by (cases seq) simp_all
    then have "length (hd seq) = L" using widths by (simp add: list_all_iff)
    then show ?thesis using False by (simp add: list_all_iff)
  qed
  have sl_ok: "list_all (row_ok L) (py_slice tmp a b)"
    using assms(2) set_py_slice [of tmp a b] by (auto simp: list_all_iff)
  have mid: "list_all (row_ok L) (map2 (write_cols L) (py_slice tmp a b) ?vs)"
    by (rule map2_write_cols_ok [OF sl_ok vs_w])
  have pre: "list_all (row_ok L) (take ?lo tmp)"
    using assms(2) by (auto simp: list_all_iff dest: in_set_takeD)
  have post: "list_all (row_ok L) (drop (?lo + length (py_slice tmp a b)) tmp)"
    using assms(2) by (auto simp: list_all_iff dest: in_set_dropD)
  have ok: "list_all (row_ok L) tmp1"
    unfolding tmp1 using pre mid post by simp
  have lo: "?lo \<le> length tmp" and hi: "?hi \<le> length tmp" by (rule slice_bound_le)+
  have "length tmp1 = ?lo + (?hi - ?lo) + (length tmp - (?lo + (?hi - ?lo)))"
    unfolding tmp1 using lo by (simp add: length_py_slice del: replicate.simps)
  then have "length tmp1 = length tmp" using lo hi by linarith
  with ok show ?thesis by simp
qed

lemma copy_rows_ok:
  assumes "copy_rows js tmp lb = Inr lb1" "list_all P tmp" "list_all P lb"
  shows "list_all P lb1 \<and> length lb1 = length lb"
  using assms
proof (induction js arbitrary: lb)
  case Nil
  then show ?case by simp
next
  case (Cons j js)
  from Cons.prems(1) have j: "j < length tmp" "j < length lb"
    and rest: "copy_rows js tmp (lb[j := tmp ! j]) = Inr lb1"
    by (auto split: if_splits)
  have "P (tmp ! j)" using Cons.prems(2) j(1) by (simp add: list_all_length)
  then have "list_all P (lb[j := tmp ! j])"
    using Cons.prems(3) j(2) by (auto simp: list_all_length nth_list_update)
  from Cons.IH [OF rest Cons.prems(2) this] show ?case by simp
qed

lemma copy_rows_in_range:
  assumes "copy_rows js tmp lb = Inr lb1" "j \<in> set js"
  shows "j < length tmp \<and> j < length lb"
  using assms
proof (induction js arbitrary: lb)
  case Nil
  then show ?case by simp
next
  case (Cons a js)
  from Cons.prems(1) have a: "a < length tmp" "a < length lb"
    and rest: "copy_rows js tmp (lb[a := tmp ! a]) = Inr lb1"
    by (auto split: if_splits)
  show ?case
  proof (cases "j = a")
    case True
    then show ?thesis using a by simp
  next
    case False
    with Cons.prems(2) have "j \<in> set js" by simp
    from Cons.IH [OF rest this] show ?thesis by simp
  qed
qed

lemma zeros_ok: "list_all (row_ok L) (zeros n (L + 2))"
  by (simp add: zeros_def row_ok_def list_all_iff hd_replicate last_replicate)

lemma count_nonzero_row_ok:
  assumes "row_ok L row"
  shows "count_nonzero row \<le> L"
proof -
  from assms have len: "length row = L + 2" and h: "hd row = 0" and l: "last row = 0"
    by (simp_all add: row_ok_def)
  from len obtain mid where row: "row = hd row # mid @ [last row]" and m: "length mid = L"
  proof -
    from len have ne: "row \<noteq> []" by auto
    then obtain x xs where x: "row = x # xs" by (cases row) auto
    with len have "xs \<noteq> []" by auto
    then have "xs = butlast xs @ [last xs]" by simp
    with x have "row = hd row # butlast xs @ [last row]" using \<open>xs \<noteq> []\<close> by simp
    moreover have "length (butlast xs) = L" using x len by simp
    ultimately show ?thesis using that by blast
  qed
  have "count_nonzero row = length (filter (\<lambda>v. v \<noteq> 0) mid)"
    by (subst row) (simp add: count_nonzero_def h l)
  also have "\<dots> \<le> length mid" by (rule length_filter_le)
  finally show ?thesis using m by simp
qed

lemma fill_prefix_zero_row:
  "k \<le> w \<Longrightarrow> fill_prefix k (replicate w 0) = replicate k 1 @ replicate (w - k) 0"
  by (simp add: fill_prefix_def min_def)

lemma batch_body_rows:
  assumes "batch_body split spi j (dl, r, acc) = Inr (w, dl1, r2, acc1)"
    and "list_all (row_ok (seq_length dl)) (tmp_label_batch acc)"
  shows "list_all (row_ok (seq_length dl1)) (tmp_label_batch acc1) \<and>
         length (tmp_label_batch acc1) = length (tmp_label_batch acc) \<and>
         seq_length dl1 = seq_length dl"
proof -
  from batch_body_Inr [OF assms(1)] obtain ix r1 seq where
    g: "BlobFetcher_get split dl r = Inr ((ix, w), dl1, r1)" and
    a: "assign_block (seq_length dl1) (int j * spi) ((int j + 1) * spi)
          (tmp_label_batch acc) seq = Inr (tmp_label_batch acc1)"
    by blast
  from BlobFetcher_get_frame [OF g] have L: "seq_length dl1 = seq_length dl" by simp
  from assign_block_rows [OF a] assms(2) L show ?thesis by auto
qed

lemma batch_loop_rows:
  assumes "batch_loop split spi js i (dl, r, acc) = Inr (i1, wr, dl1, r1, acc1)"
    and "list_all (row_ok (seq_length dl)) (tmp_label_batch acc)"
  shows "list_all (row_ok (seq_length dl1)) (tmp_label_batch acc1) \<and>
         length (tmp_label_batch acc1) = length (tmp_label_batch acc) \<and>
         seq_length dl1 = seq_length dl"
  using assms
proof (induction js arbitrary: i dl r acc)
  case Nil
  then show ?case by simp
next
  case (Cons j js)
  from Cons.prems(1) obtain w dl2 r2 acc2 where
    body: "batch_body split spi j (dl, r, acc) = Inr (w, dl2, r2, acc2)" and
    rest: "if w then (i1, wr, dl1, r1, acc1) = (j, True, dl2, r2, acc2)
           else batch_loop split spi js j (dl2, r2, acc2) = Inr (i1, wr, dl1, r1, acc1)"
    by (auto split: sum.splits if_splits)
  from batch_body_rows [OF body Cons.prems(2)] have
    ok: "list_all (row_ok (seq_length dl2)) (tmp_label_batch acc2)" and
    len: "length (tmp_label_batch acc2) = length (tmp_label_batch acc)" and
    L: "seq_length dl2 = seq_length dl"
    by auto
  show ?case
  proof (cases w)
    case True
    with rest have "dl1 = dl2" "acc1 = acc2" by simp_all
    with ok len L show ?thesis by simp
  next
    case False
    with rest have "batch_loop split spi js j (dl2, r2, acc2) = Inr (i1, wr, dl1, r1, acc1)"
      by simp
    from Cons.IH [OF this ok] len L show ?thesis by auto
  qed
qed

lemma batch_loop_fetch_run:
  assumes "batch_loop split spi js i (dl, r, acc) = Inr (i1, wr, dl1, r1, acc1)"
  shows "\<exists>k res.
           k \<le> length js \<and> fetch_run k split spi dl r = Inr (res, dl1, r1) \<and>
           length res = k \<and>
           map info_ix (infos_acc acc1) = map info_ix (infos_acc acc) @ map fst res \<and>
           fc_batch acc1 = fc_batch acc @ concat (map (\<lambda>x. replicate (nat spi) (fst x)) res) \<and>
           list_all (\<lambda>x. \<not> snd x) (butlast res) \<and>
           (wr \<longleftrightarrow> res \<noteq> [] \<and> snd (last res)) \<and>
           (k < length js \<longrightarrow> wr) \<and>
           (if k = 0 then i1 = i else i1 = js ! (k - 1))"
  using assms
proof (induction js arbitrary: i dl r acc)
  case Nil
  then show ?case by (intro exI [of _ 0] exI [of _ "[]"]) simp
next
  case (Cons j js)
  from Cons.prems obtain w dl2 r2 acc2 where
    body: "batch_body split spi j (dl, r, acc) = Inr (w, dl2, r2, acc2)" and
    rest: "if w then (i1, wr, dl1, r1, acc1) = (j, True, dl2, r2, acc2)
           else batch_loop split spi js j (dl2, r2, acc2) = Inr (i1, wr, dl1, r1, acc1)"
    by (auto split: sum.splits if_splits)
  from batch_body_Inr [OF body] obtain ix r3 seq info where
    g: "BlobFetcher_get split dl r = Inr ((ix, w), dl2, r3)" and
    s: "get_sequence dl2 ix spi r3 = Inr (seq, r2)" and
    inf: "infos_acc acc2 = infos_acc acc @ [info]" "info_ix info = ix" and
    fc: "fc_batch acc2 = fc_batch acc @ replicate (nat spi) ix"
    by blast
  show ?case
  proof (cases w)
    case True
    with rest have eq: "i1 = j" "wr" "dl1 = dl2" "r1 = r2" "acc1 = acc2" by simp_all
    have run: "fetch_run (Suc 0) split spi dl r = Inr ([(ix, w)], dl1, r1)"
      using g s eq by simp
    show ?thesis
      using run inf fc eq True
      by (intro exI [of _ "Suc 0"] exI [of _ "[(ix, w)]"]) simp
  next
    case False
    with rest have loop: "batch_loop split spi js j (dl2, r2, acc2) = Inr (i1, wr, dl1, r1, acc1)"
      by simp
    from Cons.IH [OF loop] obtain k res where
      k: "k \<le> length js" and
      run: "fetch_run k split spi dl2 r2 = Inr (res, dl1, r1)" and
      len: "length res = k" and
      infos: "map info_ix (infos_acc acc1) = map info_ix (infos_acc acc2) @ map fst res" and
      fcs: "fc_batch acc1 = fc_batch acc2 @ concat (map (\<lambda>x. replicate (nat spi) (fst x)) res)" and
      flags: "list_all (\<lambda>x. \<not> snd x) (butlast res)" and
      wr: "wr \<longleftrightarrow> res \<noteq> [] \<and> snd (last res)" and
      early: "k < length js \<longrightarrow> wr" and
      idx: "if k = 0 then i1 = j else i1 = js ! (k - 1)"
      by blast
    have run1: "fetch_run (Suc k) split spi dl r = Inr ((ix, w) # res, dl1, r1)"
      using g s run by simp
    have flags1: "list_all (\<lambda>x. \<not> snd x) (butlast ((ix, w) # res))"
      using flags False by simp
    have wr1: "wr \<longleftrightarrow> (ix, w) # res \<noteq> [] \<and> snd (last ((ix, w) # res))"
      using wr False by simp
    have idx1: "i1 = (j # js) ! (Suc k - 1)"
      using idx by (cases k) simp_all
    show ?thesis
      using k run1 len infos fcs flags1 wr1 early idx1 inf fc
      by (intro exI [of _ "Suc k"] exI [of _ "(ix, w) # res"]) simp
  qed
qed

lemma finish_batch_Inr:
  assumes "finish_batch split spi n wr dl r acc = Inr (b, dl1, r1)"
  shows "\<exists>lb pos xs.
           dl1 = dl \<and> r1 = r \<and> 0 \<le> int n * spi \<and>
           copy_rows [0..<n] (tmp_label_batch acc)
             (zeros (nat (int n * spi)) (seq_length dl + 2)) = Inr lb \<and>
           labels b = lb \<and>
           masks b = map2 fill_prefix (map (\<lambda>x. count_nonzero x + 2) lb)
                       (zeros (nat (int n * spi)) (seq_length dl + 2)) \<and>
           infos b = infos_acc acc \<and> fc_feats b = fc_batch acc \<and> gts b = gts_acc acc \<and>
           iterators dl split = Some pos \<and> split_ix dl split = Some xs \<and>
           bounds b = \<lparr>it_pos_now = pos, it_max = length xs, wrapped = wr\<rparr>"
  using assms
  by (auto simp: finish_batch_def split: if_splits sum.splits option.splits)

lemma get_batch_Inr:
  assumes "get_batch self r split bs_arg spi_arg = Inr (b, self1, r1)"
  shows "\<exists>i wr acc.
           0 \<le> py_or bs_arg (batch_size self) * py_or spi_arg (seq_per_img self) \<and>
           batch_loop split (py_or spi_arg (seq_per_img self))
             [0..<nat (py_or bs_arg (batch_size self))] 0
             (self, r,
              \<lparr>fc_batch = [],
               tmp_label_batch =
                 zeros (nat (py_or bs_arg (batch_size self) * py_or spi_arg (seq_per_img self)))
                   (seq_length self + 2),
               infos_acc = [], gts_acc = []\<rparr>) = Inr (i, wr, self1, r1, acc) \<and>
           finish_batch split (py_or spi_arg (seq_per_img self)) (i + 1) wr self1 r1 acc =
             Inr (b, self1, r1)"
proof -
  from assms obtain i wr self2 r2 acc where
    nn: "0 \<le> py_or bs_arg (batch_size self) * py_or spi_arg (seq_per_img self)" and
    loop: "batch_loop split (py_or spi_arg (seq_per_img self))
             [0..<nat (py_or bs_arg (batch_size self))] 0
             (self, r,
              \<lparr>fc_batch = [],
               tmp_label_batch =
                 zeros (nat (py_or bs_arg (batch_size self) * py_or spi_arg (seq_per_img self)))
                   (seq_length self + 2),
               infos_acc = [], gts_acc = []\<rparr>) = Inr (i, wr, self2, r2, acc)" and
    fin: "finish_batch split (py_or spi_arg (seq_per_img self)) (i + 1) wr self2 r2 acc =
             Inr (b, self1, r1)"
    unfolding get_batch_def by (auto split: if_splits sum.splits)
  from finish_batch_Inr [OF fin] have "self1 = self2" "r1 = r2" by auto
  with nn loop fin show ?thesis by blast
qed

lemma get_batch_summary:
  assumes "get_batch self r split bs_arg spi_arg = Inr (b, self1, r1)"
  shows "\<exists>k res pos xs.
           1 \<le> k \<and> int k \<le> py_or bs_arg (batch_size self) \<and>
           1 \<le> py_or spi_arg (seq_per_img self) \<and>
           fetch_run k split (py_or spi_arg (seq_per_img self)) self r = Inr (res, self1, r1) \<and>
           length res = k \<and>
           map info_ix (infos b) = map fst res \<and>
           fc_feats b =
             concat (map (\<lambda>x. replicate (nat (py_or spi_arg (seq_per_img self))) (fst x)) res) \<and>
           list_all (\<lambda>x. \<not> snd x) (butlast res) \<and>
           wrapped (bounds b) = snd (last res) \<and>
           (int k < py_or bs_arg (batch_size self) \<longrightarrow> wrapped (bounds b)) \<and>
           length (labels b) = k * nat (py_or spi_arg (seq_per_img self)) \<and>
           list_all (row_ok (seq_length self)) (labels b) \<and>
           masks b = map2 fill_prefix (map (\<lambda>x. count_nonzero x + 2) (labels b))
                       (zeros (length (labels b)) (seq_length self + 2)) \<and>
           iterators self1 split = Some pos \<and> split_ix self1 split = Some xs \<and>
           bounds b = \<lparr>it_pos_now = pos, it_max = length xs, wrapped = snd (last res)\<rparr>"
proof -
  define bs where "bs = py_or bs_arg (batch_size self)"
  define spi where "spi = py_or spi_arg (seq_per_img self)"
  define acc0 where "acc0 = \<lparr>fc_batch = [],
      tmp_label_batch = zeros (nat (bs * spi)) (seq_length self + 2),
      infos_acc = [], gts_acc = []\<rparr>"
  from get_batch_Inr [OF assms] obtain i wr acc where
    nn: "0 \<le> bs * spi" and
    loop: "batch_loop split spi [0..<nat bs] 0 (self, r, acc0) = Inr (i, wr, self1, r1, acc)" and
    fin: "finish_batch split spi (i + 1) wr self1 r1 acc = Inr (b, self1, r1)"
    unfolding bs_def spi_def acc0_def by blast
  have ok0: "list_all (row_ok (seq_length self)) (tmp_label_batch acc0)"
    using zeros_ok [of "seq_length self" "nat (bs * spi)"] by (simp add: acc0_def)
  from batch_loop_rows [OF loop ok0] have
    ok: "list_all (row_ok (seq_length self1)) (tmp_label_batch acc)" and
    len: "length (tmp_label_batch acc) = length (tmp_label_batch acc0)" and
    L: "seq_length self1 = seq_length self"
    by auto
  from finish_batch_Inr [OF fin] obtain lb pos xs where
    cp: "copy_rows [0..<i + 1] (tmp_label_batch acc)
           (zeros (nat (int (i + 1) * spi)) (seq_length self1 + 2)) = Inr lb" and
    lab: "labels b = lb" and
    msk: "masks b = map2 fill_prefix (map (\<lambda>x. count_nonzero x + 2) lb)
                       (zeros (nat (int (i + 1) * spi)) (seq_length self1 + 2))" and
    inf: "infos b = infos_acc acc" and fc: "fc_feats b = fc_batch acc" and
    pos: "iterators self1 split = Some pos" and xs: "split_ix self1 split = Some xs" and
    bnd: "bounds b = \<lparr>it_pos_now = pos, it_max = length xs, wrapped = wr\<rparr>"
    by blast
  have "0 \<in> set [0..<i + 1]" by auto
  from copy_rows_in_range [OF cp this] have
    tmp_pos: "0 < length (tmp_label_batch acc)" and
    lb_pos: "0 < length (zeros (nat (int (i + 1) * spi)) (seq_length self1 + 2))"
    by blast+
  from lb_pos have "0 < int (i + 1) * spi" by (simp add: zeros_def)
  then have spi1: "1 \<le> spi" by (simp add: zero_less_mult_iff)
  from tmp_pos len have "0 < bs * spi" by (simp add: acc0_def zeros_def)
  with spi1 have bs1: "1 \<le> bs" by (simp add: zero_less_mult_iff)
  from batch_loop_fetch_run [OF loop] obtain k res where
    k: "k \<le> length [0..<nat bs]" and
    run: "fetch_run k split spi self r = Inr (res, self1, r1)" and
    lres: "length res = k" and
    infos: "map info_ix (infos_acc acc) = map info_ix (infos_acc acc0) @ map fst res" and
    fcs: "fc_batch acc = fc_batch acc0 @ concat (map (\<lambda>x. replicate (nat spi) (fst x)) res)" and
    flags: "list_all (\<lambda>x. \<not> snd x) (butlast res)" and
    wr: "wr \<longleftrightarrow> res \<noteq> [] \<and> snd (last res)" and
    early: "k < length [0..<nat bs] \<longrightarrow> wr" and
    idx: "if k = 0 then i = 0 else i = [0..<nat bs] ! (k - 1)"
    by blast
  have k1: "1 \<le> k"
  proof (rule ccontr)
    assume "\<not> 1 \<le> k"
    then have k0: "k = 0" by simp
    with bs1 early have wr by simp
    with wr lres k0 show False by simp
  qed
  have kbs: "int k \<le> bs" using k bs1 by simp
  have i: "i + 1 = k" using idx k1 k by simp
  have wr2: "wr = snd (last res)" using wr lres k1 by auto
  have early2: "int k < bs \<longrightarrow> wr" using early bs1 by simp
  from copy_rows_ok [OF cp ok zeros_ok] have
    lb_ok: "list_all (row_ok (seq_length self1)) lb" and
    lb_len: "length lb = length (zeros (nat (int (i + 1) * spi)) (seq_length self1 + 2))"
    by auto
  have lb_len2: "length lb = k * nat spi"
    using lb_len i spi1 by (simp add: zeros_def nat_mult_distrib)
  have msk2: "masks b = map2 fill_prefix (map (\<lambda>x. count_nonzero x + 2) (labels b))
                       (zeros (length (labels b)) (seq_length self + 2))"
    using msk lab lb_len L by (simp add: zeros_def)
  have "1 \<le> k \<and> int k \<le> bs \<and> 1 \<le> spi \<and>
        fetch_run k split spi self r = Inr (res, self1, r1) \<and> length res = k \<and>
        map info_ix (infos b) = map fst res \<and>
        fc_feats b = concat (map (\<lambda>x. replicate (nat spi) (fst x)) res) \<and>
        list_all (\<lambda>x. \<not> snd x) (butlast res) \<and>
        wrapped (bounds b) = snd (last res) \<and>
        (int k < bs \<longrightarrow> wrapped (bounds b)) \<and>
        length (labels b) = k * nat spi \<and>
        list_all (row_ok (seq_length self)) (labels b) \<and>
        masks b = map2 fill_prefix (map (\<lambda>x. count_nonzero x + 2) (labels b))
                    (zeros (length (labels b)) (seq_length self + 2)) \<and>
        iterators self1 split = Some pos \<and> split_ix self1 split = Some xs \<and>
        bounds b = \<lparr>it_pos_now = pos, it_max = length xs, wrapped = snd (last res)\<rparr>"
    using k1 kbs spi1 run lres infos inf fcs fc flags wr2 early2 bnd lab lb_len2 lb_ok L msk2 pos xs
    by (simp add: acc0_def)
  then show ?thesis unfolding bs_def spi_def by blast
qed


section \<open>The example loader, evaluated\<close>

lemmas batch_eval =
  get_batch_def py_or_def batch_body_def BlobFetcher_get_def BlobFetcher_reset_def
  get_next_minibatch_inds_def getitem_def get_sequence_def nth_res_def randint_def
  py_index_def py_slice_def slice_bound_def assign_block_def write_cols_def
  make_info_dict_def finish_batch_def zeros_def count_nonzero_def fill_prefix_def
  eval_nat_numeral

text \<open>One image, two captions per image: the cursor moves to 1 and nothing wraps.\<close>

lemma ex_batch_one_image:
  "get_batch ex_loader ex_rng ''train'' (Some 1) (Some 2) =
     Inr (ex_batch_one, ex_loader_one, rng_tail ex_rng)"
  by (simp add: batch_eval ex_eval ex_batch_one_def ex_loader_one_def)

text \<open>Three images asked for, one caption each: the train split has two, so the batch wraps.\<close>

lemma ex_batch_wraps:
  "get_batch ex_loader ex_rng ''train'' (Some 3) (Some 1) =
     Inr (ex_batch_wrap, ex_loader_wrap, rng_tail (rng_tail ex_rng))"
  by (simp add: batch_eval ex_eval ex_batch_wrap_def ex_loader_wrap_def)

section \<open>Mask rows\<close>

text \<open>
  C3. In every batch \<^verbatim>\<open>get_batch\<close> returns, the mask matrix has as many rows as
  the label matrix, and mask row \<open>i\<close> is \<open>n + 2\<close> ones followed by zeros up to the
  width \<open>seq_length + 2\<close>, where \<open>n\<close> is the number of nonzero entries of label row
  \<open>i\<close>; \<open>n\<close> is at most \<open>seq_length\<close>, so \<open>n = 0\<close>, \<open>n = 1\<close> and
  \<open>n = seq_length\<close> are covered.
\<close>

theorem C3_mask_rows:
  assumes "get_batch self r split bs_arg spi_arg = Inr (b, self1, r1)"
  shows "length (masks b) = length (labels b) \<and>
         (\<forall>i<length (labels b).
            count_nonzero (labels b ! i) \<le> seq_length self \<and>
            masks b ! i =
              replicate (count_nonzero (labels b ! i) + 2) 1 @
              replicate (seq_length self - count_nonzero (labels b ! i)) 0)"
proof -
  from get_batch_summary [OF assms] have
    ok: "list_all (row_ok (seq_length self)) (labels b)" and
    msk: "masks b = map2 fill_prefix (map (\<lambda>x. count_nonzero x + 2) (labels b))
                      (zeros (length (labels b)) (seq_length self + 2))"
    by auto
  have len: "length (masks b) = length (labels b)"
    unfolding msk by (simp add: zeros_def)
  have row: "masks b ! i =
              replicate (count_nonzero (labels b ! i) + 2) 1 @
              replicate (seq_length self - count_nonzero (labels b ! i)) 0"
    and nz: "count_nonzero (labels b ! i) \<le> seq_length self"
    if i: "i < length (labels b)" for i
  proof -
    from ok i have "row_ok (seq_length self) (labels b ! i)" by (simp add: list_all_length)
    then show nz: "count_nonzero (labels b ! i) \<le> seq_length self"
      by (rule count_nonzero_row_ok)
    have "masks b ! i =
            fill_prefix (count_nonzero (labels b ! i) + 2) (replicate (seq_length self + 2) 0)"
      unfolding msk using i by (simp add: zeros_def)
    also have "\<dots> = replicate (count_nonzero (labels b ! i) + 2) 1 @
              replicate (seq_length self + 2 - (count_nonzero (labels b ! i) + 2)) 0"
      using nz by (intro fill_prefix_zero_row) simp
    finally show "masks b ! i =
              replicate (count_nonzero (labels b ! i) + 2) 1 @
              replicate (seq_length self - count_nonzero (labels b ! i)) 0"
      by simp
  qed
  show ?thesis using len row nz by blast
qed

theorem C3_mask_rows_witness:
  "get_batch ex_loader ex_rng ''train'' (Some 3) (Some 1) =
     Inr (ex_batch_wrap, ex_loader_wrap, rng_tail (rng_tail ex_rng)) \<and>
   labels ex_batch_wrap = [[0, 5, 6, 0], [0, 9, 0, 0]] \<and>
   masks ex_batch_wrap ! 0 = replicate (2 + 2) 1 @ replicate (2 - 2) 0 \<and>
   masks ex_batch_wrap ! 1 = replicate (1 + 2) 1 @ replicate (2 - 1) 0 \<and>
   get_batch ex_loader ex_rng ''train'' (Some 1) (Some 2) =
     Inr (ex_batch_one, ex_loader_one, rng_tail ex_rng) \<and>
   labels ex_batch_one = [[0, 5, 6, 0], [0, 0, 0, 0]] \<and>
   masks ex_batch_one ! 1 = replicate (0 + 2) 1 @ replicate (2 - 0) 0"
proof -
  note a = C3_mask_rows [OF ex_batch_wraps, THEN conjunct2, rule_format]
  note b = C3_mask_rows [OF ex_batch_one_image, THEN conjunct2, rule_format]
  have la: "labels ex_batch_wrap = [[0, 5, 6, 0], [0, 9, 0, 0]]"
    by (simp add: ex_batch_wrap_def)
  have lb: "labels ex_batch_one = [[0, 5, 6, 0], [0, 0, 0, 0]]"
    by (simp add: ex_batch_one_def)
  have L: "seq_length ex_loader = 2" by (simp add: ex_eval)
  have a0: "masks ex_batch_wrap ! 0 = replicate (2 + 2) 1 @ replicate (2 - 2) 0"
    using a [of 0] by (simp add: la L count_nonzero_def eval_nat_numeral)
  have a1: "masks ex_batch_wrap ! 1 = replicate (1 + 2) 1 @ replicate (2 - 1) 0"
    using a [of 1] by (simp add: la L count_nonzero_def eval_nat_numeral)
  have b1: "masks ex_batch_one ! 1 = replicate (0 + 2) 1 @ replicate (2 - 0) 0"
    using b [of 1] by (simp add: lb L count_nonzero_def eval_nat_numeral)
  show ?thesis
    by (intro conjI) (rule ex_batch_wraps ex_batch_one_image la lb a0 a1 b1)+
qed


section \<open>A batch is the fetches up to the wrap\<close>

















section \<open>Label rows beyond the number of images\<close>

text \<open>
  C1. On the example loader, \<^verbatim>\<open>get_batch('train', 1, 2)\<close> fetches image 0, for which
  \<^verbatim>\<open>_get_sequence\<close> samples the caption rows \<open>[5, 6]\<close> and \<open>[7, 8]\<close>. The
  returned label matrix has width \<open>seq_length + 2\<close> and its row 0 holds the first
  caption at offset 1, but row \<open>0 * 2 + 1\<close> is all zero instead of holding the second
  caption: lines 213 and 214 copy only the first \<^verbatim>\<open>actual_batch_size\<close> rows of
  \<^verbatim>\<open>tmp_label_batch\<close> into a matrix of \<^verbatim>\<open>actual_batch_size * seq_per_img\<close> rows.
\<close>

theorem C1_later_caption_rows_are_left_zero:
  "BlobFetcher_get ''train'' ex_loader ex_rng = Inr ((0, False), ex_loader_one, ex_rng) \<and>
   get_sequence ex_loader_one 0 2 ex_rng = Inr ([[5, 6], [7, 8]], rng_tail ex_rng) \<and>
   get_batch ex_loader ex_rng ''train'' (Some 1) (Some 2) =
     Inr (ex_batch_one, ex_loader_one, rng_tail ex_rng) \<and>
   labels ex_batch_one = [[0, 5, 6, 0], [0, 0, 0, 0]] \<and>
   labels ex_batch_one ! (0 * 2 + 1) \<noteq> 0 # [[5, 6], [7, 8]] ! 1 @ [0]"
proof -
  have g: "BlobFetcher_get ''train'' ex_loader ex_rng = Inr ((0, False), ex_loader_one, ex_rng)"
    by (simp add: batch_eval ex_eval ex_loader_one_def)
  have s: "get_sequence ex_loader_one 0 2 ex_rng = Inr ([[5, 6], [7, 8]], rng_tail ex_rng)"
    by (simp add: batch_eval ex_eval ex_loader_one_def)
  have l: "labels ex_batch_one = [[0, 5, 6, 0], [0, 0, 0, 0]]"
    by (simp add: ex_batch_one_def)
  have d: "labels ex_batch_one ! (0 * 2 + 1) \<noteq> 0 # [[5, 6], [7, 8]] ! 1 @ [0]"
    by (simp add: l)
  show ?thesis
    by (intro conjI) (rule g s l d ex_batch_one_image)+
qed


section \<open>Resetting a split\<close>

lemma get_fresh_first:
  assumes "prefetch_process dl key = Some f" and "split_loader f = None"
    and "bf_split f = key" and "iterators dl key = Some 0" and "split_ix dl key = Some xs"
    and "BlobFetcher_get key dl r = Inr (iw, dl1, r1)"
  shows "xs \<noteq> [] \<and> fst iw = xs ! 0"
proof -
  from assms(1-5) have f1: "BlobFetcher_reset f dl = Inr (f\<lparr>split_loader := Some xs\<rparr>)"
    by (simp add: BlobFetcher_reset_def)
  from assms(6) assms(1,2) f1 obtain iw2 dl2 r2 where
    step: "get_next_minibatch_inds (f\<lparr>split_loader := Some xs\<rparr>) dl r = Inr (iw2, dl2, r2)" and
    iw: "fst iw = fst iw2"
    by (auto simp: BlobFetcher_get_def split: sum.splits list.splits if_splits)
  from step assms(3,4,5) have "xs \<noteq> [] \<and> fst iw2 = xs ! 0"
    by (auto simp: get_next_minibatch_inds_def split: if_splits)
  with iw show ?thesis by simp
qed

lemma fetch_run_SucE:
  assumes "fetch_run (Suc k) split spi dl r = Inr (res, dl2, r2)"
  obtains iw dl1 r1 rest where
    "BlobFetcher_get split dl r = Inr (iw, dl1, r1)" and "res = iw # rest"
proof (cases "BlobFetcher_get split dl r")
  case (Inl e)
  with assms show ?thesis by simp
next
  case (Inr a)
  then obtain iw dl1 r1 where g: "BlobFetcher_get split dl r = Inr (iw, dl1, r1)"
    by (cases a) auto
  show ?thesis
  proof (cases "get_sequence dl1 (fst iw) spi r1")
    case (Inl e)
    with assms g show ?thesis by simp
  next
    case (Inr c)
    then obtain seq r3 where s: "get_sequence dl1 (fst iw) spi r1 = Inr (seq, r3)"
      by (cases c) auto
    show ?thesis
    proof (cases "fetch_run k split spi dl1 r3")
      case (Inl e)
      with assms g s show ?thesis by simp
    next
      case (Inr d)
      then obtain rest dl3 r4 where "fetch_run k split spi dl1 r3 = Inr (rest, dl3, r4)"
        by (cases d) auto
      with assms g s have "res = iw # rest" by simp
      with g that show ?thesis by blast
    qed
  qed
qed

text \<open>
  C6. For a split that has a prefetcher, \<^verbatim>\<open>reset_iterator\<close> succeeds; afterwards the
  split's cursor is 0 and its prefetcher is a new one without a loader iterator, every
  split's index list is as before, and every other split keeps its cursor and its
  prefetcher. Any batch \<^verbatim>\<open>get_batch\<close> then returns for that split starts with the
  first index of the split's list, whatever the cursor was before the reset.
\<close>

theorem C6_reset_iterator:
  assumes "prefetch_process self split = Some f"
  shows "\<exists>self1.
           reset_iterator self split = Inr self1 \<and>
           iterators self1 split = Some 0 \<and>
           prefetch_process self1 split =
             Some \<lparr>bf_split = split, if_shuffle = (allow_shuffle self \<and> split = ''train''),
                   split_loader = None\<rparr> \<and>
           split_ix self1 = split_ix self \<and>
           (\<forall>s. s \<noteq> split \<longrightarrow>
                iterators self1 s = iterators self s \<and>
                prefetch_process self1 s = prefetch_process self s) \<and>
           (\<forall>xs r bs_arg spi_arg b self2 r2.
              split_ix self split = Some xs \<longrightarrow>
              get_batch self1 r split bs_arg spi_arg = Inr (b, self2, r2) \<longrightarrow>
              xs \<noteq> [] \<and> infos b \<noteq> [] \<and> info_ix (hd (infos b)) = xs ! 0)"
proof -
  define self1 where "self1 =
    self\<lparr>prefetch_process := (prefetch_process self)
            (split \<mapsto> BlobFetcher_init split (allow_shuffle self \<and> split = ''train'')),
         iterators := (iterators self)(split \<mapsto> 0)\<rparr>"
  have run: "reset_iterator self split = Inr self1"
    using assms by (simp add: reset_iterator_def self1_def)
  have it: "iterators self1 split = Some 0" by (simp add: self1_def)
  have pf: "prefetch_process self1 split =
      Some \<lparr>bf_split = split, if_shuffle = (allow_shuffle self \<and> split = ''train''),
            split_loader = None\<rparr>"
    by (simp add: self1_def BlobFetcher_init_def)
  have sx: "split_ix self1 = split_ix self" by (simp add: self1_def)
  have others: "\<forall>s. s \<noteq> split \<longrightarrow>
      iterators self1 s = iterators self s \<and> prefetch_process self1 s = prefetch_process self s"
    by (simp add: self1_def)
  have first: "xs \<noteq> [] \<and> infos b \<noteq> [] \<and> info_ix (hd (infos b)) = xs ! 0"
    if xs: "split_ix self split = Some xs"
      and gb: "get_batch self1 r split bs_arg spi_arg = Inr (b, self2, r2)"
    for xs r bs_arg spi_arg b self2 r2
  proof -
    from get_batch_summary [OF gb] obtain k res where
      k: "1 \<le> k" and
      fr: "fetch_run k split (py_or spi_arg (seq_per_img self1)) self1 r = Inr (res, self2, r2)" and
      len: "length res = k" and
      inf: "map info_ix (infos b) = map fst res"
      by blast
    from k obtain k' where k': "k = Suc k'" by (cases k) simp_all
    from fr [unfolded k'] obtain iw dl1 r1 rest where
      g: "BlobFetcher_get split self1 r = Inr (iw, dl1, r1)" and
      res: "res = iw # rest"
      by (rule fetch_run_SucE)
    have "xs \<noteq> [] \<and> fst iw = xs ! 0"
      by (rule get_fresh_first [OF pf _ _ it _ g]) (simp_all add: sx xs)
    moreover from inf res have "infos b \<noteq> []" and "info_ix (hd (infos b)) = fst iw"
      by (auto simp: hd_map [symmetric] simp del: hd_map)
    ultimately show ?thesis by simp
  qed
  have batch: "\<forall>xs r bs_arg spi_arg b self2 r2.
              split_ix self split = Some xs \<longrightarrow>
              get_batch self1 r split bs_arg spi_arg = Inr (b, self2, r2) \<longrightarrow>
              xs \<noteq> [] \<and> infos b \<noteq> [] \<and> info_ix (hd (infos b)) = xs ! 0"
    by (intro allI impI) (rule first)
  show ?thesis
    by (intro exI [of _ self1] conjI) (rule run it pf sx others batch)+
qed

text \<open>The example loader with cursor 1 on the train split, reset and read again.\<close>

theorem C6_reset_iterator_witness:
  "prefetch_process ex_loader_one ''train'' =
     Some \<lparr>bf_split = ''train'', if_shuffle = False, split_loader = Some [1]\<rparr> \<and>
   iterators ex_loader_one ''train'' = Some 1 \<and>
   reset_iterator ex_loader_one ''train'' = Inr ex_loader_reset \<and>
   iterators ex_loader_reset ''train'' = Some 0 \<and>
   split_ix ex_loader_one ''train'' = Some [0, 1] \<and>
   (\<exists>self2 r2. get_batch ex_loader_reset ex_rng ''train'' (Some 1) (Some 2) =
        Inr (ex_batch_one, self2, r2)) \<and>
   info_ix (hd (infos ex_batch_one)) = [0, 1] ! 0"
proof -
  have pf: "prefetch_process ex_loader_one ''train'' =
     Some \<lparr>bf_split = ''train'', if_shuffle = False, split_loader = Some [1]\<rparr>"
    and it: "iterators ex_loader_one ''train'' = Some 1"
    and sx: "split_ix ex_loader_one ''train'' = Some [0, 1]"
    and al: "allow_shuffle ex_loader_one = False"
    by (simp_all add: ex_loader_one_def ex_eval)
  have rs: "reset_iterator ex_loader_one ''train'' = Inr ex_loader_reset"
    by (simp add: reset_iterator_def pf al ex_loader_reset_def BlobFetcher_init_def)
  have gb: "\<exists>self2 r2. get_batch ex_loader_reset ex_rng ''train'' (Some 1) (Some 2) =
        Inr (ex_batch_one, self2, r2)"
    by (simp add: batch_eval ex_eval ex_loader_reset_def ex_loader_one_def ex_batch_one_def)
  then obtain self2 r2 where gb2:
    "get_batch ex_loader_reset ex_rng ''train'' (Some 1) (Some 2) = Inr (ex_batch_one, self2, r2)"
    by blast
  from C6_reset_iterator [OF pf] obtain self1 where
    r1: "reset_iterator ex_loader_one ''train'' = Inr self1" and
    i1: "iterators self1 ''train'' = Some 0" and
    f1: "\<forall>xs r bs_arg spi_arg b self2 r2.
              split_ix ex_loader_one ''train'' = Some xs \<longrightarrow>
              get_batch self1 r ''train'' bs_arg spi_arg = Inr (b, self2, r2) \<longrightarrow>
              xs \<noteq> [] \<and> infos b \<noteq> [] \<and> info_ix (hd (infos b)) = xs ! 0"
    by (elim exE conjE) (rule that, assumption+)
  from r1 rs have eq: "self1 = ex_loader_reset" by simp
  from i1 eq have i2: "iterators ex_loader_reset ''train'' = Some 0" by simp
  from f1 [rule_format, OF sx gb2 [folded eq]]
  have hd: "info_ix (hd (infos ex_batch_one)) = [0, 1] ! 0" by simp
  show ?thesis
    by (intro conjI) (rule pf it rs i2 sx gb hd)+
qed


section \<open>Images without captions\<close>

lemma get_sequence_no_caption:
  assumes "nth_res (label_start_ix self) ix = Inr s"
    and "nth_res (label_end_ix self) ix = Inr en" and "en - s + 1 = 0"
  shows "get_sequence self ix spi r = Inl AssertionError"
proof -
  have "\<not> 0 < en - 1 - (s - 1) + 1" using assms(3) by simp
  then show ?thesis using assms(1,2) by (simp add: get_sequence_def)
qed

lemma fetch_run_captions:
  assumes "fetch_run k split spi dl r = Inr (res, dl1, r1)" and "x \<in> set res"
  shows "\<exists>s en. nth_res (label_start_ix dl) (fst x) = Inr s \<and>
                 nth_res (label_end_ix dl) (fst x) = Inr en \<and> 0 < en - s + 1"
  using assms
proof (induction k arbitrary: dl r res)
  case 0
  then show ?case by simp
next
  case (Suc k)
  show ?case
  proof (cases "BlobFetcher_get split dl r")
    case (Inl e)
    with Suc.prems(1) show ?thesis by simp
  next
    case (Inr a)
    then obtain iw dl2 r2 where g: "BlobFetcher_get split dl r = Inr (iw, dl2, r2)"
      by (cases a) auto
    from BlobFetcher_get_frame [OF g] have
      fr: "label_start_ix dl2 = label_start_ix dl" "label_end_ix dl2 = label_end_ix dl"
      by simp_all
    show ?thesis
    proof (cases "get_sequence dl2 (fst iw) spi r2")
      case (Inl e)
      with Suc.prems(1) g show ?thesis by simp
    next
      case (Inr c)
      then obtain seq r3 where s: "get_sequence dl2 (fst iw) spi r2 = Inr (seq, r3)"
        by (cases c) auto
      show ?thesis
      proof (cases "fetch_run k split spi dl2 r3")
        case (Inl e)
        with Suc.prems(1) g s show ?thesis by simp
      next
        case (Inr d)
        then obtain rest dl3 r4 where
          run: "fetch_run k split spi dl2 r3 = Inr (rest, dl3, r4)"
          by (cases d) auto
        with Suc.prems(1) g s have res: "res = iw # rest" and same: "dl3 = dl1" "r4 = r1"
          by simp_all
        show ?thesis
        proof (cases "x = iw")
          case True
          with get_sequence_needs_caption [OF s] fr show ?thesis by simp
        next
          case False
          with Suc.prems(2) res have "x \<in> set rest" by simp
          from Suc.IH [OF run [unfolded same] this] fr show ?thesis by simp
        qed
      qed
    qed
  qed
qed

lemma batch_body_no_caption:
  assumes "BlobFetcher_get split dl0 r0 = Inr ((ix, w), dl, r)"
    and "get_sequence dl ix spi r = Inl e"
  shows "batch_body split spi j (dl0, r0, acc) = Inl e"
  using assms by (simp add: batch_body_def)

text \<open>
  C9, as the code has it. For an image whose pointers give
  \<open>label_end - label_start + 1 = 0\<close>: \<^verbatim>\<open>_get_sequence\<close> fails with
  \<^verbatim>\<open>AssertionError\<close> and returns no matrix; the fetch step of \<^verbatim>\<open>get_batch\<close> that
  receives the image from \<^verbatim>\<open>get()\<close> fails with the same error; and no batch that
  \<^verbatim>\<open>get_batch\<close> returns contains the image.
\<close>

theorem C9_zero_captions_fail_at_retrieval:
  assumes "nth_res (label_start_ix self) ix = Inr s"
    and "nth_res (label_end_ix self) ix = Inr en"
    and "en - s + 1 = 0"
  shows "get_sequence self ix spi r = Inl AssertionError \<and>
         (\<forall>split j self0 r0 acc w.
            BlobFetcher_get split self0 r0 = Inr ((ix, w), self, r) \<longrightarrow>
            batch_body split spi j (self0, r0, acc) = Inl AssertionError) \<and>
         (\<forall>split bs_arg spi_arg b self1 r1.
            get_batch self r split bs_arg spi_arg = Inr (b, self1, r1) \<longrightarrow>
            ix \<notin> set (map info_ix (infos b)))"
proof (intro conjI allI impI)
  show a: "get_sequence self ix spi r = Inl AssertionError"
    by (rule get_sequence_no_caption [OF assms])
  show "batch_body split spi j (self0, r0, acc) = Inl AssertionError"
    if "BlobFetcher_get split self0 r0 = Inr ((ix, w), self, r)" for split j self0 r0 acc w
    using that a by (rule batch_body_no_caption)
  show "ix \<notin> set (map info_ix (infos b))"
    if gb: "get_batch self r split bs_arg spi_arg = Inr (b, self1, r1)"
    for split bs_arg spi_arg b self1 r1
  proof
    assume "ix \<in> set (map info_ix (infos b))"
    moreover from get_batch_summary [OF gb] obtain k res where
      run: "fetch_run k split (py_or spi_arg (seq_per_img self)) self r = Inr (res, self1, r1)" and
      inf: "map info_ix (infos b) = map fst res"
      by blast
    ultimately obtain x where x: "x \<in> set res" "fst x = ix" by auto
    from fetch_run_captions [OF run x(1)] x(2) assms show False by auto
  qed
qed

text \<open>On the dataset with a caption-less val image, reading the val split fails.\<close>

theorem C9_zero_captions_fail_at_retrieval_witness:
  "nth_res (label_start_ix zc_loader) 1 = Inr 2 \<and>
   nth_res (label_end_ix zc_loader) 1 = Inr 1 \<and>
   (1 :: int) - 2 + 1 = 0 \<and>
   get_sequence zc_loader 1 1 ex_rng = Inl AssertionError \<and>
   get_batch zc_loader ex_rng ''val'' (Some 1) (Some 1) = Inl AssertionError"
proof -
  have s: "nth_res (label_start_ix zc_loader) 1 = Inr 2"
    and e: "nth_res (label_end_ix zc_loader) 1 = Inr 1"
    by (simp_all add: zc_loader_def zc_h5_def DataLoader_init_def nth_res_def)
  have z: "(1 :: int) - 2 + 1 = 0" by simp
  note T = C9_zero_captions_fail_at_retrieval [OF s e z, of 1 ex_rng]
  have q: "get_sequence zc_loader 1 1 ex_rng = Inl AssertionError"
    by (rule T [THEN conjunct1])
  have b: "get_batch zc_loader ex_rng ''val'' (Some 1) (Some 1) = Inl AssertionError"
    by (simp add: batch_eval ex_eval zc_loader_def zc_images_def zc_h5_def)
  show ?thesis
    by (intro conjI) (rule s e z q b)+
qed

text \<open>
  C9, as the claim states it, fails at construction: the dataset \<open>zc_h5\<close> has an image
  with \<open>label_end - label_start + 1 = 0\<close>, the constructor builds a loader from it
  with that image on the val list, and the loader serves the train split.
\<close>

theorem C9_construction_accepts_counterexample:
  "h5_label_end_ix zc_h5 ! 1 - h5_label_start_ix zc_h5 ! 1 + 1 = 0 \<and>
   length (h5_label_start_ix zc_h5) = length zc_images \<and>
   zc_loader = DataLoader_init ex_opt False zc_images zc_h5 \<and>
   split_ix zc_loader ''val'' = Some [1] \<and>
   get_batch zc_loader ex_rng ''train'' (Some 1) (Some 1) =
     Inr (zc_batch, zc_loader_after, rng_tail ex_rng)"
proof -
  have a: "h5_label_end_ix zc_h5 ! 1 - h5_label_start_ix zc_h5 ! 1 + 1 = 0"
    and b: "length (h5_label_start_ix zc_h5) = length zc_images"
    by (simp_all add: zc_h5_def zc_images_def)
  have c: "zc_loader = DataLoader_init ex_opt False zc_images zc_h5"
    by (rule zc_loader_def)
  have d: "split_ix zc_loader ''val'' = Some [1]"
    by (simp add: ex_eval zc_loader_def zc_images_def zc_h5_def)
  have e: "get_batch zc_loader ex_rng ''train'' (Some 1) (Some 1) =
     Inr (zc_batch, zc_loader_after, rng_tail ex_rng)"
    by (simp add: batch_eval ex_eval zc_loader_def zc_images_def zc_h5_def zc_batch_def
        zc_loader_after_def)
  show ?thesis
    by (intro conjI) (rule a b c d e)+
qed


section \<open>Falsy arguments of get_batch\<close>

lemma py_or_zero: "py_or (Some 0) d = py_or None d"
  by (simp add: py_or_def)

lemma py_or_default: "py_or (Some d) d = py_or None d"
  by (simp add: py_or_def)

text \<open>
  C10. A \<^verbatim>\<open>batch_size\<close> or \<^verbatim>\<open>seq_per_img\<close> argument of 0 is replaced by the loader's
  configured value exactly as a missing argument is: a call with 0, a call without the
  argument and a call that passes the loader's own \<^verbatim>\<open>batch_size\<close> (or
  \<^verbatim>\<open>seq_per_img\<close>) have the same result and leave the same state, on every loader and
  split. No call returns an empty batch: a returned batch lists at least one image and
  has at least one label row.
\<close>

theorem C10_falsy_arguments:
  "get_batch self r split (Some 0) spi_arg = get_batch self r split None spi_arg \<and>
   get_batch self r split bs_arg (Some 0) = get_batch self r split bs_arg None \<and>
   get_batch self r split (Some 0) spi_arg =
     get_batch self r split (Some (batch_size self)) spi_arg \<and>
   get_batch self r split bs_arg (Some 0) =
     get_batch self r split bs_arg (Some (seq_per_img self)) \<and>
   (\<forall>b self1 r1.
      get_batch self r split bs_arg spi_arg = Inr (b, self1, r1) \<longrightarrow>
      infos b \<noteq> [] \<and> labels b \<noteq> [])"
proof (intro conjI allI impI)
  show "get_batch self r split (Some 0) spi_arg = get_batch self r split None spi_arg"
    unfolding get_batch_def py_or_zero by (rule refl)
  show "get_batch self r split bs_arg (Some 0) = get_batch self r split bs_arg None"
    unfolding get_batch_def py_or_zero by (rule refl)
  show "get_batch self r split (Some 0) spi_arg =
          get_batch self r split (Some (batch_size self)) spi_arg"
    unfolding get_batch_def py_or_zero py_or_default by (rule refl)
  show "get_batch self r split bs_arg (Some 0) =
          get_batch self r split bs_arg (Some (seq_per_img self))"
    unfolding get_batch_def py_or_zero py_or_default by (rule refl)
next
  fix b self1 r1
  assume gb: "get_batch self r split bs_arg spi_arg = Inr (b, self1, r1)"
  from get_batch_summary [OF gb] obtain k res pos xs where
    s: "1 \<le> k" "int k \<le> py_or bs_arg (batch_size self)"
      "1 \<le> py_or spi_arg (seq_per_img self)"
      "fetch_run k split (py_or spi_arg (seq_per_img self)) self r = Inr (res, self1, r1)"
      "length res = k"
      "map info_ix (infos b) = map fst res"
      "fc_feats b =
         concat (map (\<lambda>x. replicate (nat (py_or spi_arg (seq_per_img self))) (fst x)) res)"
      "list_all (\<lambda>x. \<not> snd x) (butlast res)"
      "wrapped (bounds b) = snd (last res)"
      "int k < py_or bs_arg (batch_size self) \<longrightarrow> wrapped (bounds b)"
      "length (labels b) = k * nat (py_or spi_arg (seq_per_img self))"
    by blast
  note k = s(1) and spi = s(3) and len = s(5) and inf = s(6) and rows = s(11)
  from k len inf have "length (map info_ix (infos b)) \<noteq> 0" by simp
  then show "infos b \<noteq> []" by auto
  from k spi rows have "0 < length (labels b)" by simp
  then show "labels b \<noteq> []" by simp
qed

theorem C10_falsy_arguments_witness:
  "get_batch ex_loader ex_rng ''train'' (Some 0) (Some 0) =
     get_batch ex_loader ex_rng ''train'' None None \<and>
   get_batch ex_loader ex_rng ''train'' (Some 0) (Some 0) =
     get_batch ex_loader ex_rng ''train'' (Some 2) (Some 2) \<and>
   batch_size ex_loader = 2 \<and> seq_per_img ex_loader = 2 \<and>
   (\<exists>b self1 r1.
      get_batch ex_loader ex_rng ''train'' (Some 0) (Some 0) = Inr (b, self1, r1) \<and>
      map info_ix (infos b) = [0, 1] \<and> length (labels b) = 4 \<and>
      infos b \<noteq> [] \<and> labels b \<noteq> [])"
proof -
  note T = C10_falsy_arguments [of ex_loader ex_rng "''train''"]
  have same: "get_batch ex_loader ex_rng ''train'' (Some 0) (Some 0) =
     get_batch ex_loader ex_rng ''train'' None None"
    using T [of "Some 0", THEN conjunct1] T [of _ None, THEN conjunct2, THEN conjunct1]
    by simp
  have "\<exists>b self1 r1.
      get_batch ex_loader ex_rng ''train'' None None = Inr (b, self1, r1) \<and>
      map info_ix (infos b) = [0, 1] \<and> length (labels b) = 4"
    by (simp add: batch_eval ex_eval)
  then obtain b self1 r1 where
    run0: "get_batch ex_loader ex_rng ''train'' None None = Inr (b, self1, r1)" and
    ixs: "map info_ix (infos b) = [0, 1]" and rows: "length (labels b) = 4"
    by (elim exE conjE) (rule that, assumption+)
  from run0 have
    run: "get_batch ex_loader ex_rng ''train'' (Some 0) (Some 0) = Inr (b, self1, r1)"
    by (simp only: same)
  have bsz: "batch_size ex_loader = 2" and spz: "seq_per_img ex_loader = 2"
    by (simp_all add: ex_eval)
  note c3 = T [of "Some 0", THEN conjunct2, THEN conjunct2, THEN conjunct1]
  note c4 = T [of _ "Some (batch_size ex_loader)",
      THEN conjunct2, THEN conjunct2, THEN conjunct2, THEN conjunct1]
  have cfg: "get_batch ex_loader ex_rng ''train'' (Some 0) (Some 0) =
     get_batch ex_loader ex_rng ''train'' (Some 2) (Some 2)"
    using trans [OF c3 c4] by (simp only: bsz spz)
  from T [of "Some 0" "Some 0", THEN conjunct2, THEN conjunct2, THEN conjunct2,
      THEN conjunct2, rule_format, OF run]
  have ne: "infos b \<noteq> []" "labels b \<noteq> []" by simp_all
  show ?thesis
    by (intro conjI exI [of _ b] exI [of _ self1] exI [of _ r1])
      (rule same cfg bsz spz run ixs rows ne)+
qed

end
